theory Spec2Isabelle
  imports Main "HOL-Library.Word"
begin

section \<open>The imported scene\<close>

text \<open>
  Modelled from the spec: the types of the scene (\<open>aiScene\<close>, \<open>aiNode\<close>, \<open>aiMesh\<close>, \<open>aiFace\<close>,
  \<open>aiVector3D\<close>) are declared by the import library, whose headers are not among the
  sources; the fields are those the program reads, with the meaning the spec gives them
  (a scene owns a tree of nodes and a flat collection of meshes; a node has indices into
  that collection and child nodes; a mesh has a flat position array, three floats for each
  vertex, and an array of faces, each a short list of vertex indices).

  The scene is only read by the program. A C array with its element count
  (\<open>mNumFaces\<close>/\<open>mFaces\<close>, \<open>mNumIndices\<close>/\<open>mIndices\<close>, \<open>mNumVertices\<close>/\<open>mVertices\<close>,
  \<open>mNumMeshes\<close>/\<open>mMeshes\<close>, \<open>mNumChildren\<close>/\<open>mChildren\<close>) is a list, the count is its length.
  A \<open>float\<close> is its 32-bit pattern: the program copies floats and never computes with
  them. A pointer that may be null is an \<open>option\<close>. The fields the program does not read
  in \<open>init\<close>, \<open>nodeTreeTraversal\<close>, \<open>display\<close> and \<open>keyboard\<close> (names, transformations,
  normals, materials, lights, cameras) are left out.

  Counts and indices are \<open>unsigned int\<close> in the source (\<open>meshIndex\<close> and \<open>faceArrayIndex\<close>
  are \<open>int\<close>, sizes in bytes are \<open>size_t\<close>); here they are natural numbers, which is the
  same as long as they stay below \<open>2 ^ 31\<close>. The one product the source hands on as a
  32-bit value, the element count of a draw call, is a 32-bit word.
\<close>

type_synonym float = "32 word"
type_synonym uint = "32 word"

datatype aiVector3D = aiVector3D (vec_x: float) (vec_y: float) (vec_z: float)

record aiFace =
  mIndices :: "uint list"

definition mNumIndices :: "aiFace \<Rightarrow> nat" where
  "mNumIndices f = length (mIndices f)"

record aiMesh =
  mVertices :: "aiVector3D list"
  mFaces :: "aiFace list"

definition mNumVertices :: "aiMesh \<Rightarrow> nat" where
  "mNumVertices m = length (mVertices m)"

definition mNumFaces :: "aiMesh \<Rightarrow> nat" where
  "mNumFaces m = length (mFaces m)"

text \<open>
  Modelled from the spec: \<open>HasPositions\<close> and \<open>HasFaces\<close> are members of the import
  library's mesh type and not among the sources. The spec has them as "the mesh has
  vertex positions" and "the mesh has faces", where a mesh with zero faces has none: the
  array is not null and its count is positive.
\<close>

definition HasPositions :: "aiMesh \<Rightarrow> bool" where
  "HasPositions m = (mVertices m \<noteq> [])"

definition HasFaces :: "aiMesh \<Rightarrow> bool" where
  "HasFaces m = (mFaces m \<noteq> [])"

datatype aiNode = aiNode (node_mMeshes: "nat list") (mChildren: "aiNode option list")

record aiScene =
  mRootNode :: "aiNode option"
  scene_mMeshes :: "aiMesh list"

definition mNumMeshes :: "aiScene \<Rightarrow> nat" where
  "mNumMeshes sc = length (scene_mMeshes sc)"

text \<open>The vertex array as the flat run of floats that \<open>glBufferData\<close> reads from it.\<close>

fun flat_positions :: "aiVector3D list \<Rightarrow> float list" where
  "flat_positions [] = []"
| "flat_positions (v # vs) = vec_x v # vec_y v # vec_z v # flat_positions vs"


section \<open>Memory cells and failures\<close>

text \<open>
  A \<open>malloc\<close>ed array is a list of cells of fixed length; a cell that was never written
  is \<open>None\<close>. Reading or writing outside an array, reading through a null pointer and
  reading a cell never written are undefined in C++: the model stops with an error that
  names the array.
\<close>

datatype array_name = VaoArray | FaceArray | SceneMeshes | MeshFaces | ScenePtr

datatype error =
    NullPointer array_name
  | OutOfBounds array_name nat
  | Uninitialised array_name nat

type_synonym 'a cell = "'a option"

definition write_cell :: "array_name \<Rightarrow> 'a cell list \<Rightarrow> nat \<Rightarrow> 'a \<Rightarrow> error + 'a cell list" where
  "write_cell a xs i v = (if i < length xs then Inr (xs[i := Some v]) else Inl (OutOfBounds a i))"

definition read_cell :: "array_name \<Rightarrow> 'a cell list \<Rightarrow> nat \<Rightarrow> error + 'a" where
  "read_cell a xs i =
     (if i < length xs
      then (case xs ! i of None \<Rightarrow> Inl (Uninitialised a i) | Some v \<Rightarrow> Inr v)
      else Inl (OutOfBounds a i))"

definition read_elem :: "array_name \<Rightarrow> 'a list \<Rightarrow> nat \<Rightarrow> error + 'a" where
  "read_elem a xs i = (if i < length xs then Inr (xs ! i) else Inl (OutOfBounds a i))"


section \<open>Flattening the faces of a mesh\<close>

text \<open>
  The inner loop of \<open>init\<close> over \<open>k\<close>: it writes the indices of one face to
  \<open>faceArray[faceArrayIndex]\<close> and advances \<open>faceArrayIndex\<close>.
\<close>

fun copy_indices :: "uint list \<Rightarrow> uint cell list \<Rightarrow> nat \<Rightarrow> error + (uint cell list \<times> nat)" where
  "copy_indices [] fa faceArrayIndex = Inr (fa, faceArrayIndex)"
| "copy_indices (v # vs) fa faceArrayIndex =
     (case write_cell FaceArray fa faceArrayIndex v of
        Inl e \<Rightarrow> Inl e
      | Inr fa' \<Rightarrow> copy_indices vs fa' (faceArrayIndex + 1))"

text \<open>The outer loop over \<open>j\<close>, one face after the other.\<close>

fun copy_faces :: "aiFace list \<Rightarrow> uint cell list \<Rightarrow> nat \<Rightarrow> error + (uint cell list \<times> nat)" where
  "copy_faces [] fa faceArrayIndex = Inr (fa, faceArrayIndex)"
| "copy_faces (f # fs) fa faceArrayIndex =
     (case copy_indices (mIndices f) fa faceArrayIndex of
        Inl e \<Rightarrow> Inl e
      | Inr (fa', faceArrayIndex') \<Rightarrow> copy_faces fs fa' faceArrayIndex')"

text \<open>
  The number of cells of the \<open>malloc\<close> for \<open>faceArray\<close>, and of the upload to the index
  buffer: \<open>mNumFaces * mFaces[0].mNumIndices\<close>. Reading \<open>mFaces[0]\<close> of a mesh without
  faces is out of bounds.
\<close>

definition face_array_size :: "aiMesh \<Rightarrow> error + nat" where
  "face_array_size m =
     (case read_elem MeshFaces (mFaces m) 0 of
        Inl e \<Rightarrow> Inl e
      | Inr f0 \<Rightarrow> Inr (mNumFaces m * mNumIndices f0))"

text \<open>
  Allocation and both loops: the new \<open>faceArray\<close> and the final \<open>faceArrayIndex\<close>.
\<close>

definition flatten_faces :: "aiMesh \<Rightarrow> error + (uint cell list \<times> nat)" where
  "flatten_faces m =
     (case face_array_size m of
        Inl e \<Rightarrow> Inl e
      | Inr n \<Rightarrow> copy_faces (mFaces m) (replicate n None) 0)"

text \<open>What the spec asks of the flattened array: the faces' indices, face after face.\<close>

definition spec_flat_indices :: "aiMesh \<Rightarrow> uint list" where
  "spec_flat_indices m = concat (map mIndices (mFaces m))"

definition total_indices :: "aiMesh \<Rightarrow> nat" where
  "total_indices m = length (spec_flat_indices m)"

definition uniform_faces :: "aiMesh \<Rightarrow> bool" where
  "uniform_faces m = list_all (\<lambda>f. mNumIndices f = mNumIndices (hd (mFaces m))) (mFaces m)"

definition faces_have :: "nat \<Rightarrow> aiMesh \<Rightarrow> bool" where
  "faces_have K m = list_all (\<lambda>f. mNumIndices f = K) (mFaces m)"


section \<open>The graphics library\<close>

text \<open>
  Modelled from the spec: the graphics library is an external collaborator whose code is
  not among the sources; the spec has it create buffers, copy arrays into them, associate
  them with the slot of a mesh and issue indexed draw calls. Its objects follow the
  OpenGL specification, as far as the program uses them: names come from
  \<open>glGenVertexArrays\<close> and \<open>glGenBuffers\<close> (a counter: each call returns a name never
  returned before), a vertex array object records the buffer of each attribute and its
  element array buffer, a buffer object holds the 32-bit cells copied by \<open>glBufferData\<close>.
  A name returned by \<open>glGenVertexArrays\<close> stands for an empty vertex array from then on
  (the library makes the object when the name is first bound; the program binds every
  name right after it is generated).
  Name 0 is no buffer, and the default vertex array. Every \<open>glDrawElements\<close> is logged
  with the vertex array bound at that moment. Calls that change none of this
  (\<open>glEnable\<close>, \<open>glPolygonMode\<close>, \<open>glClearColor\<close>, \<open>glClear\<close>, \<open>glViewport\<close>) are left out.
\<close>

record vao =
  attrib_enabled :: "int set"
  attrib_buffer :: "int \<rightharpoonup> nat"
  element_buffer :: nat

definition empty_vao :: vao where
  "empty_vao = \<lparr>attrib_enabled = {}, attrib_buffer = Map.empty, element_buffer = 0\<rparr>"

text \<open>
  A logged draw call: the vertex array bound when it was issued and the 32 bits of its
  \<open>count\<close> argument. The argument is a \<open>GLsizei\<close>, a signed integer: \<open>sint\<close> reads the
  value the library receives, \<open>unat\<close> the \<open>unsigned int\<close> the program computed.
\<close>

record draw_call =
  dc_vao :: nat
  dc_count :: "32 word"

record gl_state =
  vao_names :: nat
  buffer_names :: nat
  vertex_array_binding :: nat
  array_buffer_binding :: nat
  vaos :: "nat \<rightharpoonup> vao"
  buffers :: "nat \<rightharpoonup> 32 word cell list"
  current_program :: nat
  draws :: "draw_call list"
  frames :: nat

definition initial_gl :: gl_state where
  "initial_gl = \<lparr>vao_names = 0, buffer_names = 0, vertex_array_binding = 0,
     array_buffer_binding = 0, vaos = [0 \<mapsto> empty_vao], buffers = Map.empty,
     current_program = 0, draws = [], frames = 0\<rparr>"

datatype buffer_target = GL_ARRAY_BUFFER | GL_ELEMENT_ARRAY_BUFFER

definition glGenVertexArrays :: "gl_state \<Rightarrow> nat \<times> gl_state" where
  "glGenVertexArrays g =
     (Suc (vao_names g),
      g\<lparr>vao_names := Suc (vao_names g), vaos := (vaos g)(Suc (vao_names g) \<mapsto> empty_vao)\<rparr>)"

definition glGenBuffers :: "gl_state \<Rightarrow> nat \<times> gl_state" where
  "glGenBuffers g = (Suc (buffer_names g), g\<lparr>buffer_names := Suc (buffer_names g)\<rparr>)"

text \<open>
  A name that stands for no vertex array is refused (\<open>GL_INVALID_OPERATION\<close>) and the
  binding stays.
\<close>

definition glBindVertexArray :: "nat \<Rightarrow> gl_state \<Rightarrow> gl_state" where
  "glBindVertexArray n g =
     (if n = 0 then g\<lparr>vertex_array_binding := 0\<rparr>
      else (case vaos g n of
              None \<Rightarrow> g
            | Some _ \<Rightarrow> g\<lparr>vertex_array_binding := n\<rparr>))"

definition set_element_buffer :: "nat \<Rightarrow> gl_state \<Rightarrow> gl_state" where
  "set_element_buffer n g =
     (case vaos g (vertex_array_binding g) of
        None \<Rightarrow> g
      | Some v \<Rightarrow> g\<lparr>vaos := (vaos g)(vertex_array_binding g \<mapsto> v\<lparr>element_buffer := n\<rparr>)\<rparr>)"

definition create_buffer :: "nat \<Rightarrow> gl_state \<Rightarrow> gl_state" where
  "create_buffer n g =
     (if n = 0 then g
      else (case buffers g n of None \<Rightarrow> g\<lparr>buffers := (buffers g)(n \<mapsto> [])\<rparr> | Some _ \<Rightarrow> g))"

text \<open>The element array binding belongs to the vertex array that is bound.\<close>

definition glBindBuffer :: "buffer_target \<Rightarrow> nat \<Rightarrow> gl_state \<Rightarrow> gl_state" where
  "glBindBuffer target n g =
     (case target of
        GL_ARRAY_BUFFER \<Rightarrow> (create_buffer n g)\<lparr>array_buffer_binding := n\<rparr>
      | GL_ELEMENT_ARRAY_BUFFER \<Rightarrow> set_element_buffer n (create_buffer n g))"

definition bound_buffer :: "buffer_target \<Rightarrow> gl_state \<Rightarrow> nat" where
  "bound_buffer target g =
     (case target of
        GL_ARRAY_BUFFER \<Rightarrow> array_buffer_binding g
      | GL_ELEMENT_ARRAY_BUFFER \<Rightarrow>
          (case vaos g (vertex_array_binding g) of None \<Rightarrow> 0 | Some v \<Rightarrow> element_buffer v))"

text \<open>
  \<open>glBufferData target size data\<close> copies the first \<open>size\<close> cells of \<open>data\<close> into the
  buffer bound to the target (the size is counted here in 32-bit cells, the source
  multiplies it by \<open>sizeof(float)\<close> or \<open>sizeof(unsigned int)\<close>). With no buffer bound
  the call is refused.
\<close>

definition glBufferData :: "buffer_target \<Rightarrow> nat \<Rightarrow> 32 word cell list \<Rightarrow> gl_state \<Rightarrow> gl_state" where
  "glBufferData target size_cells src g =
     (if bound_buffer target g = 0 then g
      else g\<lparr>buffers := (buffers g)(bound_buffer target g \<mapsto> take size_cells src)\<rparr>)"

text \<open>
  An attribute location below zero (what \<open>glGetAttribLocation\<close> returns when it fails)
  is no attribute: both calls are refused (\<open>GL_INVALID_VALUE\<close>).
\<close>

definition glEnableVertexAttribArray :: "int \<Rightarrow> gl_state \<Rightarrow> gl_state" where
  "glEnableVertexAttribArray loc g =
     (if loc < 0 then g
      else (case vaos g (vertex_array_binding g) of
              None \<Rightarrow> g
            | Some v \<Rightarrow> g\<lparr>vaos := (vaos g)(vertex_array_binding g \<mapsto>
                          v\<lparr>attrib_enabled := insert loc (attrib_enabled v)\<rparr>)\<rparr>))"

definition glVertexAttribPointer :: "int \<Rightarrow> gl_state \<Rightarrow> gl_state" where
  "glVertexAttribPointer loc g =
     (if loc < 0 then g
      else (case vaos g (vertex_array_binding g) of
              None \<Rightarrow> g
            | Some v \<Rightarrow> g\<lparr>vaos := (vaos g)(vertex_array_binding g \<mapsto>
                          v\<lparr>attrib_buffer := (attrib_buffer v)(loc \<mapsto> array_buffer_binding g)\<rparr>)\<rparr>))"

definition glDrawElements :: "32 word \<Rightarrow> gl_state \<Rightarrow> gl_state" where
  "glDrawElements count g =
     g\<lparr>draws := draws g @ [\<lparr>dc_vao = vertex_array_binding g, dc_count = count\<rparr>]\<rparr>"

definition glUseProgram :: "nat \<Rightarrow> gl_state \<Rightarrow> gl_state" where
  "glUseProgram p g = g\<lparr>current_program := p\<rparr>"

definition glutSwapBuffers :: "gl_state \<Rightarrow> gl_state" where
  "glutSwapBuffers g = g\<lparr>frames := Suc (frames g)\<rparr>"


section \<open>The program state\<close>

text \<open>
  The globals of the program, the state of the graphics library, the lines written to
  \<open>cout\<close> by \<open>load3DFile\<close>, \<open>init\<close> and \<open>nodeTreeTraversal\<close> themselves, and the redisplay
  flag of the window. The reports of \<open>printShaderInfoLog\<close>, \<open>printShaderProgramInfoLog\<close>
  and \<open>checkOpenGLError\<close> (their file is not among the sources) and the dump of
  \<open>printAiSceneInfo\<close> only add lines to \<open>cout\<close>; they are left out.
\<close>

record prog_state =
  scene :: "aiScene option"
  vaoArray :: "nat cell list option"
  faceArray :: "uint cell list option"
  program :: nat
  vPos :: int
  gl :: gl_state
  console :: "string list"
  redisplay :: bool

definition initial_state :: prog_state where
  "initial_state = \<lparr>scene = None, vaoArray = None, faceArray = None, program = 0, vPos = 0,
     gl = initial_gl, console = [], redisplay = False\<rparr>"

text \<open>
  What the program finds outside itself: whether the file can be opened, what the
  importer returns for it (its error string, or the scene), and the names the graphics
  library gives to the shaders, the shader program and the attribute \<open>vPos\<close>.
\<close>

record env =
  file_good :: bool
  read_file :: "string + aiScene"
  vShaderID :: nat
  fShaderID :: nat
  program_name :: nat
  vPos_location :: int

definition objectFileName :: string where
  "objectFileName = ''Models'' @ [CHR 0x5C] @ ''dog3.dae''"

definition cout :: "string \<Rightarrow> prog_state \<Rightarrow> prog_state" where
  "cout line s = s\<lparr>console := console s @ [line]\<rparr>"


section \<open>Loading\<close>

definition load3DFile :: "env \<Rightarrow> string \<Rightarrow> prog_state \<Rightarrow> bool \<times> prog_state" where
  "load3DFile e filename s =
     (if \<not> file_good e then (False, cout ''Unable to open the 3D file.'' s)
      else
        let s1 = cout (''Loading 3D file '' @ filename) s in
        (case read_file e of
           Inl msg \<Rightarrow> (False, cout msg (s1\<lparr>scene := None\<rparr>))
         | Inr sc \<Rightarrow> (True, cout (''3D file '' @ filename @ '' loaded.'') (s1\<lparr>scene := Some sc\<rparr>))))"


section \<open>Uploading the meshes\<close>

text \<open>The block of \<open>init\<close> guarded by \<open>HasPositions\<close>.\<close>

definition upload_positions :: "aiMesh \<Rightarrow> int \<Rightarrow> gl_state \<Rightarrow> gl_state" where
  "upload_positions currentMesh loc g =
     (if HasPositions currentMesh then
        let (buffer, g1) = glGenBuffers g;
            g2 = glBindBuffer GL_ARRAY_BUFFER buffer g1;
            g3 = glBufferData GL_ARRAY_BUFFER (3 * mNumVertices currentMesh)
                   (map Some (flat_positions (mVertices currentMesh))) g2;
            g4 = glEnableVertexAttribArray loc g3
        in glVertexAttribPointer loc g4
      else g)"

text \<open>
  The block of \<open>init\<close> guarded by \<open>HasFaces\<close>: it replaces \<open>faceArray\<close> and hands its
  first \<open>mNumFaces * mFaces[0].mNumIndices\<close> cells to a new element array buffer.
\<close>

definition upload_indices :: "nat \<Rightarrow> uint cell list \<Rightarrow> gl_state \<Rightarrow> gl_state" where
  "upload_indices n fa g =
     (let (buffer, g1) = glGenBuffers g;
          g2 = glBindBuffer GL_ELEMENT_ARRAY_BUFFER buffer g1
      in glBufferData GL_ELEMENT_ARRAY_BUFFER n fa g2)"

definition upload_faces :: "aiMesh \<Rightarrow> prog_state \<Rightarrow> error + prog_state" where
  "upload_faces currentMesh s =
     (if HasFaces currentMesh then
        (case flatten_faces currentMesh of
           Inl e \<Rightarrow> Inl e
         | Inr (fa, faceArrayIndex) \<Rightarrow>
             (case face_array_size currentMesh of
                Inl e \<Rightarrow> Inl e
              | Inr n \<Rightarrow> Inr (s\<lparr>faceArray := Some fa, gl := upload_indices n fa (gl s)\<rparr>)))
      else Inr s)"

text \<open>The end of a round: the vertex array and both buffer targets are unbound.\<close>

definition close_bindings :: "gl_state \<Rightarrow> gl_state" where
  "close_bindings g =
     glBindBuffer GL_ELEMENT_ARRAY_BUFFER 0 (glBindBuffer GL_ARRAY_BUFFER 0 (glBindVertexArray 0 g))"

text \<open>One round of the loop over the meshes, for mesh \<open>i\<close>.\<close>

definition upload_mesh :: "nat \<Rightarrow> aiMesh \<Rightarrow> prog_state \<Rightarrow> error + prog_state" where
  "upload_mesh i currentMesh s =
     (case vaoArray s of
        None \<Rightarrow> Inl (NullPointer VaoArray)
      | Some va \<Rightarrow>
          let (name, g1) = glGenVertexArrays (gl s) in
          (case write_cell VaoArray va i name of
             Inl e \<Rightarrow> Inl e
           | Inr va' \<Rightarrow>
               let g2 = glBindVertexArray name g1;
                   g3 = upload_positions currentMesh (vPos s) g2
               in (case upload_faces currentMesh (s\<lparr>vaoArray := Some va', gl := g3\<rparr>) of
                     Inl e \<Rightarrow> Inl e
                   | Inr s1 \<Rightarrow> Inr (s1\<lparr>gl := close_bindings (gl s1)\<rparr>))))"

fun upload_meshes :: "nat \<Rightarrow> aiMesh list \<Rightarrow> prog_state \<Rightarrow> error + prog_state" where
  "upload_meshes i [] s = Inr s"
| "upload_meshes i (currentMesh # rest) s =
     (case upload_mesh i currentMesh s of
        Inl e \<Rightarrow> Inl e
      | Inr s' \<Rightarrow> upload_meshes (i + 1) rest s')"

text \<open>The shader part of \<open>init\<close>: the two globals it sets and the lines it writes.\<close>

definition build_shaders :: "env \<Rightarrow> prog_state \<Rightarrow> prog_state" where
  "build_shaders e s =
     (let s1 = (if vShaderID e = 0
                then cout ''There is an error creating the vertex shader.'' s else s);
          s2 = (if fShaderID e = 0
                then cout ''There is an error creating the fragment shader.'' s1 else s1);
          s3 = s2\<lparr>program := program_name e\<rparr>;
          s4 = (if program s3 = 0
                then cout ''There is an error creating the shader program.'' s3 else s3);
          s5 = s4\<lparr>vPos := vPos_location e\<rparr>
      in if vPos s5 = - 1
         then cout ''There is an error when calling glGetAttribLocation().'' s5 else s5)"

definition init :: "env \<Rightarrow> prog_state \<Rightarrow> error + prog_state" where
  "init e s =
     (let s1 = build_shaders e s;
          (fileLoaded, s2) = load3DFile e objectFileName s1
      in if \<not> fileLoaded then Inr s2
         else (case scene s2 of
                 None \<Rightarrow> Inl (NullPointer ScenePtr)
               | Some sc \<Rightarrow>
                   upload_meshes 0 (scene_mMeshes sc)
                     (s2\<lparr>vaoArray := Some (replicate (mNumMeshes sc) None)\<rparr>)))"


section \<open>Drawing\<close>

text \<open>
  One round of the first loop of \<open>nodeTreeTraversal\<close>, in the order of the source: the
  vertex array is bound, then the mesh and its first face are read. The element count is
  the product of two \<open>unsigned int\<close>, taken as the source takes it, in 32 bits.
\<close>

definition draw_mesh :: "nat \<Rightarrow> prog_state \<Rightarrow> error + prog_state" where
  "draw_mesh meshIndex s =
     (case vaoArray s of
        None \<Rightarrow> Inl (NullPointer VaoArray)
      | Some va \<Rightarrow>
     (case read_cell VaoArray va meshIndex of
        Inl e \<Rightarrow> Inl e
      | Inr name \<Rightarrow>
          let g1 = glBindVertexArray name (gl s) in
     (case scene s of
        None \<Rightarrow> Inl (NullPointer ScenePtr)
      | Some sc \<Rightarrow>
     (case read_elem SceneMeshes (scene_mMeshes sc) meshIndex of
        Inl e \<Rightarrow> Inl e
      | Inr currentMesh \<Rightarrow>
          let numFaces = (of_nat (mNumFaces currentMesh) :: 32 word) in
     (case read_elem MeshFaces (mFaces currentMesh) 0 of
        Inl e \<Rightarrow> Inl e
      | Inr f0 \<Rightarrow>
          let numIndicesPerFace = (of_nat (mNumIndices f0) :: 32 word);
              g2 = glDrawElements (numFaces * numIndicesPerFace) g1
          in Inr (s\<lparr>gl := glBindVertexArray 0 g2\<rparr>))))))"

fun draw_meshes :: "nat list \<Rightarrow> prog_state \<Rightarrow> error + prog_state" where
  "draw_meshes [] s = Inr s"
| "draw_meshes (meshIndex # rest) s =
     (case draw_mesh meshIndex s of
        Inl e \<Rightarrow> Inl e
      | Inr s' \<Rightarrow> draw_meshes rest s')"

fun nodeTreeTraversal :: "aiNode option \<Rightarrow> prog_state \<Rightarrow> error + prog_state"
  and traverse_children :: "aiNode option list \<Rightarrow> prog_state \<Rightarrow> error + prog_state" where
  "nodeTreeTraversal None s = Inr (cout ''nodeTreeTraversal(): Null node'' s)"
| "nodeTreeTraversal (Some (aiNode meshes children)) s =
     (case draw_meshes meshes s of
        Inl e \<Rightarrow> Inl e
      | Inr s' \<Rightarrow> traverse_children children s')"
| "traverse_children [] s = Inr s"
| "traverse_children (child # rest) s =
     (case nodeTreeTraversal child s of
        Inl e \<Rightarrow> Inl e
      | Inr s' \<Rightarrow> traverse_children rest s')"

definition display :: "prog_state \<Rightarrow> error + prog_state" where
  "display s =
     (let s1 = s\<lparr>gl := glUseProgram (program s) (gl s)\<rparr> in
      (case (case scene s1 of
               None \<Rightarrow> Inr s1
             | Some sc \<Rightarrow> nodeTreeTraversal (mRootNode sc) s1) of
         Inl e \<Rightarrow> Inl e
       | Inr s2 \<Rightarrow> Inr (s2\<lparr>gl := glutSwapBuffers (gl s2)\<rparr>)))"


section \<open>Events\<close>

text \<open>A callback either ends the process with an exit code or leaves a state.\<close>

datatype 'a outcome = Exited int | Running 'a

definition EXIT_SUCCESS :: int where
  "EXIT_SUCCESS = 0"

definition glutPostRedisplay :: "prog_state \<Rightarrow> prog_state" where
  "glutPostRedisplay s = s\<lparr>redisplay := True\<rparr>"

definition reshape :: "int \<Rightarrow> int \<Rightarrow> prog_state \<Rightarrow> prog_state" where
  "reshape width height s = s"

definition keyboard :: "8 word \<Rightarrow> int \<Rightarrow> int \<Rightarrow> prog_state \<Rightarrow> prog_state outcome" where
  "keyboard key x y s =
     (if key = 27 then Exited EXIT_SUCCESS
      else Running (glutPostRedisplay s))"

text \<open>
  Modelled from the spec: the event loop belongs to the window library and is not among
  the sources; the spec has it call the program on redraw and key events, one after the
  other, in a single thread. Here it works through a finite run of events: it calls the
  callback of the event and, when a redisplay was posted, \<open>display\<close>. \<open>main\<close> is \<open>init\<close>
  followed by the loop; what it does before (creating the window, printing the versions
  of the graphics library) is left out.
\<close>

datatype event = DisplayEvent | ReshapeEvent int int | KeyboardEvent "8 word" int int

definition dispatch :: "event \<Rightarrow> prog_state \<Rightarrow> error + prog_state outcome" where
  "dispatch ev s =
     (case ev of
        DisplayEvent \<Rightarrow> (case display s of Inl e \<Rightarrow> Inl e | Inr s' \<Rightarrow> Inr (Running s'))
      | ReshapeEvent w h \<Rightarrow> Inr (Running (reshape w h s))
      | KeyboardEvent key x y \<Rightarrow> Inr (keyboard key x y s))"

definition redisplay_if_posted :: "prog_state \<Rightarrow> error + prog_state" where
  "redisplay_if_posted s =
     (if redisplay s then display (s\<lparr>redisplay := False\<rparr>) else Inr s)"

fun glutMainLoop :: "event list \<Rightarrow> prog_state \<Rightarrow> error + prog_state outcome" where
  "glutMainLoop [] s = Inr (Running s)"
| "glutMainLoop (ev # evs) s =
     (case dispatch ev s of
        Inl e \<Rightarrow> Inl e
      | Inr (Exited c) \<Rightarrow> Inr (Exited c)
      | Inr (Running s1) \<Rightarrow>
          (case redisplay_if_posted s1 of
             Inl e \<Rightarrow> Inl e
           | Inr s2 \<Rightarrow> glutMainLoop evs s2))"

definition main :: "env \<Rightarrow> event list \<Rightarrow> error + prog_state outcome" where
  "main e evs =
     (case init e initial_state of
        Inl err \<Rightarrow> Inl err
      | Inr s \<Rightarrow> glutMainLoop evs s)"


section \<open>What a vertex array holds for a mesh\<close>

text \<open>
  The state of the graphics library after one round of the upload loop, as a function of
  the state before it: the round of \<open>upload_mesh\<close> without the program's own variables.
\<close>

definition faces_gl :: "aiMesh \<Rightarrow> gl_state \<Rightarrow> gl_state" where
  "faces_gl m g =
     (if HasFaces m
      then (case flatten_faces m of Inl e \<Rightarrow> g | Inr (fa, k) \<Rightarrow> upload_indices (length fa) fa g)
      else g)"

definition mesh_gl :: "aiMesh \<Rightarrow> int \<Rightarrow> gl_state \<Rightarrow> gl_state" where
  "mesh_gl m loc g =
     close_bindings (faces_gl m (upload_positions m loc
       (glBindVertexArray (Suc (vao_names g)) (snd (glGenVertexArrays g)))))"


text \<open>
  The vertex array \<open>name\<close> holds mesh \<open>m\<close>: a buffer with the flat positions of the mesh
  exists and, when the attribute location is valid, is the enabled source of that
  attribute; the element array buffer holds the flattened faces; a mesh without
  positions has no attribute source and a mesh without faces has no element array buffer.
\<close>

definition vbo_ok :: "gl_state \<Rightarrow> int \<Rightarrow> vao \<Rightarrow> aiMesh \<Rightarrow> bool" where
  "vbo_ok g loc v m =
     (if HasPositions m
      then (\<exists>b \<in> {1..buffer_names g}.
              buffers g b = Some (map Some (flat_positions (mVertices m))) \<and>
              (0 \<le> loc \<longrightarrow> attrib_buffer v loc = Some b \<and> loc \<in> attrib_enabled v))
      else attrib_buffer v loc = None)"

definition ibo_ok :: "gl_state \<Rightarrow> vao \<Rightarrow> aiMesh \<Rightarrow> bool" where
  "ibo_ok g v m =
     (if HasFaces m
      then element_buffer v \<in> {1..buffer_names g} \<and>
           (case flatten_faces m of
              Inl e \<Rightarrow> False
            | Inr (fa, n) \<Rightarrow> buffers g (element_buffer v) = Some fa)
      else element_buffer v = 0)"

definition mesh_ok :: "gl_state \<Rightarrow> int \<Rightarrow> nat \<Rightarrow> aiMesh \<Rightarrow> bool" where
  "mesh_ok g loc name m =
     (case vaos g name of None \<Rightarrow> False | Some v \<Rightarrow> vbo_ok g loc v m \<and> ibo_ok g v m)"

definition gl_frame :: "gl_state \<Rightarrow> gl_state \<Rightarrow> bool" where
  "gl_frame g g' =
     (vao_names g \<le> vao_names g' \<and> buffer_names g \<le> buffer_names g' \<and>
      (\<forall>h. 0 < h \<and> h \<le> vao_names g \<longrightarrow> vaos g' h = vaos g h) \<and>
      (\<forall>b. 0 < b \<and> b \<le> buffer_names g \<longrightarrow> buffers g' b = buffers g b))"


text \<open>
  The indices of the mesh fit into the \<open>faceArray\<close> that \<open>init\<close> allocates for it.
\<close>

definition faces_fit :: "aiMesh \<Rightarrow> bool" where
  "faces_fit m = (total_indices m \<le> mNumFaces m * mNumIndices (hd (mFaces m)))"


text \<open>
  The handle table read through: the vertex array of mesh \<open>i\<close>, the data of its element
  array buffer, and the data of the buffer that feeds the attribute \<open>vPos\<close>.
\<close>

definition mesh_vao :: "prog_state \<Rightarrow> nat \<Rightarrow> vao option" where
  "mesh_vao s i =
     (case vaoArray s of
        None \<Rightarrow> None
      | Some va \<Rightarrow>
          if i < length va
          then (case va ! i of None \<Rightarrow> None | Some name \<Rightarrow> vaos (gl s) name)
          else None)"

definition index_buffer_of :: "prog_state \<Rightarrow> nat \<Rightarrow> 32 word cell list option" where
  "index_buffer_of s i =
     (case mesh_vao s i of
        None \<Rightarrow> None
      | Some v \<Rightarrow> if element_buffer v = 0 then None else buffers (gl s) (element_buffer v))"

definition vertex_buffer_of :: "prog_state \<Rightarrow> nat \<Rightarrow> 32 word cell list option" where
  "vertex_buffer_of s i =
     (case mesh_vao s i of
        None \<Rightarrow> None
      | Some v \<Rightarrow>
          (case attrib_buffer v (vPos s) of None \<Rightarrow> None | Some b \<Rightarrow> buffers (gl s) b))"


section \<open>Example scenes\<close>

text \<open>
  The example of the spec: mesh 0 with four vertices and two triangles, mesh 1 with three
  vertices and one triangle. The root node has no mesh; its children are a node with
  mesh 0, a null pointer, and a node with meshes 1 and 0 that has a child with mesh 1.
\<close>

definition triangle :: "nat \<Rightarrow> nat \<Rightarrow> nat \<Rightarrow> aiFace" where
  "triangle a b c = \<lparr>mIndices = [of_nat a, of_nat b, of_nat c]\<rparr>"

definition vertex :: "nat \<Rightarrow> aiVector3D" where
  "vertex n = aiVector3D (of_nat (10 * n)) (of_nat (10 * n + 1)) (of_nat (10 * n + 2))"

definition square_mesh :: aiMesh where
  "square_mesh = \<lparr>mVertices = [vertex 0, vertex 1, vertex 2, vertex 3],
     mFaces = [triangle 0 1 2, triangle 0 2 3]\<rparr>"

definition triangle_mesh :: aiMesh where
  "triangle_mesh = \<lparr>mVertices = [vertex 4, vertex 5, vertex 6], mFaces = [triangle 0 1 2]\<rparr>"

definition example_scene :: aiScene where
  "example_scene =
     \<lparr>mRootNode = Some (aiNode [] [Some (aiNode [0] []), None,
                                   Some (aiNode [1, 0] [Some (aiNode [1] [])])]),
      scene_mMeshes = [square_mesh, triangle_mesh]\<rparr>"

definition example_env :: env where
  "example_env = \<lparr>file_good = True, read_file = Inr example_scene, vShaderID = 1,
     fShaderID = 2, program_name = 3, vPos_location = 0\<rparr>"

text \<open>
  A mesh with 65536 faces, the first with 65536 indices and the others with none,
  attached to the root node of a scene.
\<close>

definition wide_mesh :: aiMesh where
  "wide_mesh = \<lparr>mVertices = [],
     mFaces = \<lparr>mIndices = replicate 65536 0\<rparr> # replicate 65535 \<lparr>mIndices = []\<rparr>\<rparr>"

definition wide_scene :: aiScene where
  "wide_scene = \<lparr>mRootNode = Some (aiNode [0] []), scene_mMeshes = [wide_mesh]\<rparr>"

definition wide_env :: env where
  "wide_env = \<lparr>file_good = True, read_file = Inr wide_scene, vShaderID = 1,
     fShaderID = 2, program_name = 3, vPos_location = 0\<rparr>"



section \<open>The traversal as a plan and its execution\<close>

text \<open>
  What \<open>nodeTreeTraversal\<close> reads (the scene and \<open>vaoArray\<close>) is not what it changes (the
  graphics state and \<open>cout\<close>). So the traversal can be split, for the proofs, into the
  list of actions it decides on and their execution; \<open>traversal_plan\<close> below shows that
  the split is exact.
\<close>

datatype action = Draw nat "32 word" | Diagnostic string

definition mesh_plan :: "aiScene option \<Rightarrow> nat cell list option \<Rightarrow> nat \<Rightarrow> error + action" where
  "mesh_plan sco vao meshIndex =
     (case vao of
        None \<Rightarrow> Inl (NullPointer VaoArray)
      | Some va \<Rightarrow>
     (case read_cell VaoArray va meshIndex of
        Inl e \<Rightarrow> Inl e
      | Inr name \<Rightarrow>
     (case sco of
        None \<Rightarrow> Inl (NullPointer ScenePtr)
      | Some sc \<Rightarrow>
     (case read_elem SceneMeshes (scene_mMeshes sc) meshIndex of
        Inl e \<Rightarrow> Inl e
      | Inr currentMesh \<Rightarrow>
     (case read_elem MeshFaces (mFaces currentMesh) 0 of
        Inl e \<Rightarrow> Inl e
      | Inr f0 \<Rightarrow>
          Inr (Draw name (of_nat (mNumFaces currentMesh) * of_nat (mNumIndices f0))))))))"

fun meshes_plan :: "aiScene option \<Rightarrow> nat cell list option \<Rightarrow> nat list \<Rightarrow> error + action list" where
  "meshes_plan sco vao [] = Inr []"
| "meshes_plan sco vao (meshIndex # rest) =
     (case mesh_plan sco vao meshIndex of
        Inl e \<Rightarrow> Inl e
      | Inr a \<Rightarrow>
          (case meshes_plan sco vao rest of Inl e \<Rightarrow> Inl e | Inr as \<Rightarrow> Inr (a # as)))"

fun node_plan :: "aiScene option \<Rightarrow> nat cell list option \<Rightarrow> aiNode option \<Rightarrow> error + action list"
  and children_plan ::
    "aiScene option \<Rightarrow> nat cell list option \<Rightarrow> aiNode option list \<Rightarrow> error + action list" where
  "node_plan sco vao None = Inr [Diagnostic ''nodeTreeTraversal(): Null node'']"
| "node_plan sco vao (Some (aiNode meshes children)) =
     (case meshes_plan sco vao meshes of
        Inl e \<Rightarrow> Inl e
      | Inr as \<Rightarrow>
          (case children_plan sco vao children of Inl e \<Rightarrow> Inl e | Inr bs \<Rightarrow> Inr (as @ bs)))"
| "children_plan sco vao [] = Inr []"
| "children_plan sco vao (child # rest) =
     (case node_plan sco vao child of
        Inl e \<Rightarrow> Inl e
      | Inr as \<Rightarrow>
          (case children_plan sco vao rest of Inl e \<Rightarrow> Inl e | Inr bs \<Rightarrow> Inr (as @ bs)))"

fun exec :: "action \<Rightarrow> prog_state \<Rightarrow> prog_state" where
  "exec (Draw name count) s =
     s\<lparr>gl := glBindVertexArray 0 (glDrawElements count (glBindVertexArray name (gl s)))\<rparr>"
| "exec (Diagnostic line) s = cout line s"

definition run :: "action list \<Rightarrow> prog_state \<Rightarrow> prog_state" where
  "run as s = fold exec as s"

text \<open>The draw calls and the lines of a plan, when no vertex array is bound at its start.\<close>

fun rendered :: "(nat \<rightharpoonup> vao) \<Rightarrow> action list \<Rightarrow> draw_call list" where
  "rendered V [] = []"
| "rendered V (Draw name count # as) =
     \<lparr>dc_vao = (if name = 0 then 0 else (case V name of None \<Rightarrow> 0 | Some v \<Rightarrow> name)),
      dc_count = count\<rparr> # rendered V as"
| "rendered V (Diagnostic line # as) = rendered V as"

fun messages :: "action list \<Rightarrow> string list" where
  "messages [] = []"
| "messages (Draw name count # as) = messages as"
| "messages (Diagnostic line # as) = line # messages as"


section \<open>The traversal in the words of the spec\<close>

text \<open>
  The mesh indices in the order in which the spec has them drawn: those attached to the
  node, in attachment order, then those of each child, depth-first, in child-array order.
  A null node has none.
\<close>

fun spec_mesh_order :: "aiNode option \<Rightarrow> nat list"
  and spec_children_order :: "aiNode option list \<Rightarrow> nat list" where
  "spec_mesh_order None = []"
| "spec_mesh_order (Some (aiNode meshes children)) = meshes @ spec_children_order children"
| "spec_children_order [] = []"
| "spec_children_order (child # rest) = spec_mesh_order child @ spec_children_order rest"

text \<open>The null nodes of a tree: one diagnostic for each.\<close>

fun null_nodes :: "aiNode option \<Rightarrow> nat"
  and null_children :: "aiNode option list \<Rightarrow> nat" where
  "null_nodes None = 1"
| "null_nodes (Some (aiNode meshes children)) = null_children children"
| "null_children [] = 0"
| "null_children (child # rest) = null_nodes child + null_children rest"

text \<open>
  The size of the draw call for mesh \<open>i\<close> in the words of the spec: the face count
  multiplied by the index count of the first face, a product of natural numbers.
\<close>

definition spec_count :: "aiScene \<Rightarrow> nat \<Rightarrow> nat" where
  "spec_count sc i =
     mNumFaces (scene_mMeshes sc ! i) * mNumIndices (hd (mFaces (scene_mMeshes sc ! i)))"

text \<open>
  The size as \<open>nodeTreeTraversal\<close> computes it: the product of the two counts as
  \<open>unsigned int\<close>, which wraps around at \<open>2 ^ 32\<close>.
\<close>

definition draw_count :: "aiScene \<Rightarrow> nat \<Rightarrow> 32 word" where
  "draw_count sc i =
     of_nat (mNumFaces (scene_mMeshes sc ! i)) *
     of_nat (mNumIndices (hd (mFaces (scene_mMeshes sc ! i))))"

text \<open>Every mesh index attached to a node of the tree is below \<open>n\<close>.\<close>

definition indices_below :: "nat \<Rightarrow> aiNode option \<Rightarrow> bool" where
  "indices_below n node = list_all (\<lambda>i. i < n) (spec_mesh_order node)"

text \<open>
  The state in which the program draws: the scene is loaded, \<open>vaoArray\<close> has one written
  cell for each mesh, the vertex array named there holds the mesh, the names differ, and no
  vertex array is bound.
\<close>

definition handle_table_ok :: "aiScene \<Rightarrow> prog_state \<Rightarrow> bool" where
  "handle_table_ok sc s =
     (case vaoArray s of
        None \<Rightarrow> False
      | Some va \<Rightarrow>
          length va = mNumMeshes sc \<and> distinct va \<and>
          (\<forall>i<mNumMeshes sc.
             case va ! i of
               None \<Rightarrow> False
             | Some name \<Rightarrow> 0 < name \<and> mesh_ok (gl s) (vPos s) name (scene_mMeshes sc ! i)))"

definition ready :: "aiScene \<Rightarrow> prog_state \<Rightarrow> bool" where
  "ready sc s =
     (scene s = Some sc \<and> handle_table_ok sc s \<and> vertex_array_binding (gl s) = 0)"

text \<open>The name in cell \<open>i\<close> of \<open>vaoArray\<close>.\<close>

definition mesh_handle :: "prog_state \<Rightarrow> nat \<Rightarrow> nat" where
  "mesh_handle s i =
     (case vaoArray s of
        None \<Rightarrow> 0
      | Some va \<Rightarrow> if i < length va then (case va ! i of None \<Rightarrow> 0 | Some name \<Rightarrow> name) else 0)"

text \<open>
  The failures of the lookups in \<open>vaoArray\<close> and in the mesh array of the scene: an index
  outside one of them, or a null pointer.
\<close>

definition table_lookup_failure :: "error \<Rightarrow> bool" where
  "table_lookup_failure e =
     (case e of
        NullPointer a \<Rightarrow> True
      | OutOfBounds a i \<Rightarrow> a = VaoArray \<or> a = SceneMeshes
      | Uninitialised a i \<Rightarrow> False)"

text \<open>A scene with one mesh that has vertices and no face, attached to the root node.\<close>

definition point_cloud_mesh :: aiMesh where
  "point_cloud_mesh = \<lparr>mVertices = [vertex 0, vertex 1], mFaces = []\<rparr>"

definition point_cloud_scene :: aiScene where
  "point_cloud_scene = \<lparr>mRootNode = Some (aiNode [0] []), scene_mMeshes = [point_cloud_mesh]\<rparr>"

definition point_cloud_env :: env where
  "point_cloud_env = \<lparr>file_good = True, read_file = Inr point_cloud_scene, vShaderID = 1,
     fShaderID = 2, program_name = 3, vPos_location = 0\<rparr>"

text \<open>Two failing loads: the file cannot be opened; the importer rejects the file.\<close>

definition missing_file_env :: env where
  "missing_file_env = \<lparr>file_good = False, read_file = Inl [], vShaderID = 1,
     fShaderID = 2, program_name = 3, vPos_location = 0\<rparr>"

definition bad_file_env :: env where
  "bad_file_env = \<lparr>file_good = True, read_file = Inl ''No suitable reader found'',
     vShaderID = 1, fShaderID = 2, program_name = 3, vPos_location = 0\<rparr>"

text \<open>The Escape key is among the events.\<close>

definition is_escape :: "event \<Rightarrow> bool" where
  "is_escape ev = (case ev of KeyboardEvent key x y \<Rightarrow> key = 27 | _ \<Rightarrow> False)"

definition escape_pressed :: "event list \<Rightarrow> bool" where
  "escape_pressed evs = list_ex is_escape evs"

section \<open>Properties of the flattening\<close>

lemma copy_indices_ok:
  "faceArrayIndex + length vs \<le> length fa \<Longrightarrow>
   copy_indices vs fa faceArrayIndex =
     Inr (take faceArrayIndex fa @ map Some vs @ drop (faceArrayIndex + length vs) fa,
          faceArrayIndex + length vs)"
proof (induction vs arbitrary: fa faceArrayIndex)
  case Nil
  then show ?case by simp
next
  case (Cons v vs)
  have lt: "faceArrayIndex < length fa" using Cons.prems by simp
  have step: "Suc faceArrayIndex + length vs \<le> length (fa[faceArrayIndex := Some v])"
    using Cons.prems by simp
  have upd: "take (Suc faceArrayIndex) (fa[faceArrayIndex := Some v]) = take faceArrayIndex fa @ [Some v]"
    using lt by (simp add: take_Suc_conv_app_nth)
  show ?case
    using lt Cons.IH [OF step] upd by (simp add: write_cell_def)
qed

lemma copy_indices_overflow:
  "faceArrayIndex \<le> length fa \<Longrightarrow> length fa < faceArrayIndex + length vs \<Longrightarrow>
   \<exists>e. copy_indices vs fa faceArrayIndex = Inl e"
proof (induction vs arbitrary: fa faceArrayIndex)
  case Nil
  then show ?case by simp
next
  case (Cons v vs)
  show ?case
  proof (cases "faceArrayIndex < length fa")
    case True
    have le: "Suc faceArrayIndex \<le> length (fa[faceArrayIndex := Some v])"
      using True by simp
    have "length (fa[faceArrayIndex := Some v]) < Suc faceArrayIndex + length vs"
      using Cons.prems by simp
    from Cons.IH [OF le this] True show ?thesis by (simp add: write_cell_def)
  next
    case False
    then show ?thesis by (simp add: write_cell_def)
  qed
qed

lemma copy_faces_ok:
  "faceArrayIndex + length (concat (map mIndices fs)) \<le> length fa \<Longrightarrow>
   copy_faces fs fa faceArrayIndex =
     Inr (take faceArrayIndex fa @ map Some (concat (map mIndices fs))
            @ drop (faceArrayIndex + length (concat (map mIndices fs))) fa,
          faceArrayIndex + length (concat (map mIndices fs)))"
proof (induction fs arbitrary: fa faceArrayIndex)
  case Nil
  then show ?case by simp
next
  case (Cons f fs)
  let ?n = "length (mIndices f)"
  let ?fa = "take faceArrayIndex fa @ map Some (mIndices f) @ drop (faceArrayIndex + ?n) fa"
  have one: "faceArrayIndex + ?n \<le> length fa" using Cons.prems by simp
  have len: "length ?fa = length fa" using one by simp
  have rest: "(faceArrayIndex + ?n) + length (concat (map mIndices fs)) \<le> length ?fa"
    using Cons.prems len by simp
  have tk: "take (faceArrayIndex + ?n) ?fa = take faceArrayIndex fa @ map Some (mIndices f)"
    using one by simp
  have dr: "drop (faceArrayIndex + ?n + length (concat (map mIndices fs))) ?fa
            = drop (faceArrayIndex + ?n + length (concat (map mIndices fs))) fa"
    using one by (simp add: add.commute add.left_commute)
  show ?case
    using copy_indices_ok [OF one] Cons.IH [OF rest] tk dr
    by (simp add: add.assoc)
qed

lemma copy_faces_overflow:
  "faceArrayIndex \<le> length fa \<Longrightarrow>
   length fa < faceArrayIndex + length (concat (map mIndices fs)) \<Longrightarrow>
   \<exists>e. copy_faces fs fa faceArrayIndex = Inl e"
proof (induction fs arbitrary: fa faceArrayIndex)
  case Nil
  then show ?case by simp
next
  case (Cons f fs)
  let ?n = "length (mIndices f)"
  show ?case
  proof (cases "faceArrayIndex + ?n \<le> length fa")
    case True
    let ?fa = "take faceArrayIndex fa @ map Some (mIndices f) @ drop (faceArrayIndex + ?n) fa"
    have len: "length ?fa = length fa" using True by simp
    have le: "faceArrayIndex + ?n \<le> length ?fa" using True len by simp
    have "length ?fa < (faceArrayIndex + ?n) + length (concat (map mIndices fs))"
      using Cons.prems len by simp
    from Cons.IH [OF le this] copy_indices_ok [OF True] show ?thesis by simp
  next
    case False
    then have "length fa < faceArrayIndex + ?n" by simp
    from copy_indices_overflow [OF Cons.prems(1) this] show ?thesis by auto
  qed
qed

lemma face_array_size_eq:
  "mFaces m \<noteq> [] \<Longrightarrow> face_array_size m = Inr (mNumFaces m * mNumIndices (hd (mFaces m)))"
  by (cases "mFaces m") (simp_all add: face_array_size_def read_elem_def)

lemma face_array_size_empty:
  "mFaces m = [] \<Longrightarrow> face_array_size m = Inl (OutOfBounds MeshFaces 0)"
  by (simp add: face_array_size_def read_elem_def)

lemma flatten_faces_ok:
  assumes "mFaces m \<noteq> []"
    and "total_indices m \<le> mNumFaces m * mNumIndices (hd (mFaces m))"
  shows "flatten_faces m =
           Inr (map Some (spec_flat_indices m)
                  @ replicate (mNumFaces m * mNumIndices (hd (mFaces m)) - total_indices m) None,
                total_indices m)"
proof -
  let ?n = "mNumFaces m * mNumIndices (hd (mFaces m))"
  have "0 + length (concat (map mIndices (mFaces m))) \<le> length (replicate ?n (None :: uint cell))"
    using assms(2) by (simp add: total_indices_def spec_flat_indices_def)
  from copy_faces_ok [OF this] show ?thesis
    using assms(1) by (simp add: flatten_faces_def face_array_size_eq total_indices_def spec_flat_indices_def)
qed

lemma flatten_faces_overflow:
  assumes "mFaces m \<noteq> []"
    and "mNumFaces m * mNumIndices (hd (mFaces m)) < total_indices m"
  shows "\<exists>e. flatten_faces m = Inl e"
proof -
  let ?n = "mNumFaces m * mNumIndices (hd (mFaces m))"
  have "length (replicate ?n (None :: uint cell)) < 0 + length (concat (map mIndices (mFaces m)))"
    using assms(2) by (simp add: total_indices_def spec_flat_indices_def)
  from copy_faces_overflow [OF _ this] show ?thesis
    using assms(1) by (simp add: flatten_faces_def face_array_size_eq)
qed

lemma flatten_faces_Inr:
  assumes "flatten_faces m = Inr (fa, n)"
  shows "mFaces m \<noteq> [] \<and> total_indices m \<le> mNumFaces m * mNumIndices (hd (mFaces m)) \<and>
         n = total_indices m \<and>
         fa = map Some (spec_flat_indices m)
                @ replicate (mNumFaces m * mNumIndices (hd (mFaces m)) - total_indices m) None"
proof -
  have ne: "mFaces m \<noteq> []"
    using assms by (auto simp: flatten_faces_def face_array_size_empty)
  have le: "total_indices m \<le> mNumFaces m * mNumIndices (hd (mFaces m))"
  proof (rule ccontr)
    assume "\<not> ?thesis"
    then have "mNumFaces m * mNumIndices (hd (mFaces m)) < total_indices m" by simp
    from flatten_faces_overflow [OF ne this] assms show False by auto
  qed
  from flatten_faces_ok [OF ne le] assms ne le show ?thesis by simp
qed

lemma flatten_faces_length:
  "flatten_faces m = Inr (fa, n) \<Longrightarrow> face_array_size m = Inr k \<Longrightarrow> length fa = k"
  by (auto dest!: flatten_faces_Inr simp: face_array_size_eq total_indices_def)






lemma faces_have_uniform: "faces_have K m \<Longrightarrow> uniform_faces m"
  by (cases "mFaces m") (auto simp: faces_have_def uniform_faces_def list_all_iff)




section \<open>The fields of the graphics state after each call\<close>

lemma length_flat_positions: "length (flat_positions vs) = 3 * length vs"
  by (induction vs) auto

lemma glBindVertexArray_fields:
  "vao_names (glBindVertexArray n g) = vao_names g"
  "buffer_names (glBindVertexArray n g) = buffer_names g"
  "array_buffer_binding (glBindVertexArray n g) = array_buffer_binding g"
  "buffers (glBindVertexArray n g) = buffers g"
  "draws (glBindVertexArray n g) = draws g"
  "vaos (glBindVertexArray n g) = vaos g"
  "vertex_array_binding (glBindVertexArray n g) =
     (if n = 0 then 0
      else (case vaos g n of None \<Rightarrow> vertex_array_binding g | Some v \<Rightarrow> n))"
  by (simp_all add: glBindVertexArray_def split: option.split)

lemma glBindBuffer_fields:
  "vao_names (glBindBuffer t n g) = vao_names g"
  "buffer_names (glBindBuffer t n g) = buffer_names g"
  "vertex_array_binding (glBindBuffer t n g) = vertex_array_binding g"
  "draws (glBindBuffer t n g) = draws g"
  "array_buffer_binding (glBindBuffer t n g) =
     (case t of GL_ARRAY_BUFFER \<Rightarrow> n | GL_ELEMENT_ARRAY_BUFFER \<Rightarrow> array_buffer_binding g)"
  "buffers (glBindBuffer t n g) =
     (if n = 0 then buffers g
      else (case buffers g n of None \<Rightarrow> (buffers g)(n \<mapsto> []) | Some d \<Rightarrow> buffers g))"
  "vaos (glBindBuffer t n g) =
     (case t of
        GL_ARRAY_BUFFER \<Rightarrow> vaos g
      | GL_ELEMENT_ARRAY_BUFFER \<Rightarrow>
          (case vaos g (vertex_array_binding g) of
             None \<Rightarrow> vaos g
           | Some v \<Rightarrow> (vaos g)(vertex_array_binding g \<mapsto> v\<lparr>element_buffer := n\<rparr>)))"
  by (simp_all add: glBindBuffer_def create_buffer_def set_element_buffer_def
      split: option.split buffer_target.split)

lemma glBufferData_fields:
  "vao_names (glBufferData t n d g) = vao_names g"
  "buffer_names (glBufferData t n d g) = buffer_names g"
  "vertex_array_binding (glBufferData t n d g) = vertex_array_binding g"
  "array_buffer_binding (glBufferData t n d g) = array_buffer_binding g"
  "draws (glBufferData t n d g) = draws g"
  "vaos (glBufferData t n d g) = vaos g"
  "buffers (glBufferData t n d g) =
     (if bound_buffer t g = 0 then buffers g else (buffers g)(bound_buffer t g \<mapsto> take n d))"
  by (simp_all add: glBufferData_def)

lemma glEnableVertexAttribArray_fields:
  "vao_names (glEnableVertexAttribArray loc g) = vao_names g"
  "buffer_names (glEnableVertexAttribArray loc g) = buffer_names g"
  "vertex_array_binding (glEnableVertexAttribArray loc g) = vertex_array_binding g"
  "array_buffer_binding (glEnableVertexAttribArray loc g) = array_buffer_binding g"
  "draws (glEnableVertexAttribArray loc g) = draws g"
  "buffers (glEnableVertexAttribArray loc g) = buffers g"
  "vaos (glEnableVertexAttribArray loc g) =
     (if loc < 0 then vaos g
      else (case vaos g (vertex_array_binding g) of
              None \<Rightarrow> vaos g
            | Some v \<Rightarrow> (vaos g)(vertex_array_binding g \<mapsto>
                          v\<lparr>attrib_enabled := insert loc (attrib_enabled v)\<rparr>)))"
  by (simp_all add: glEnableVertexAttribArray_def split: option.split)

lemma glVertexAttribPointer_fields:
  "vao_names (glVertexAttribPointer loc g) = vao_names g"
  "buffer_names (glVertexAttribPointer loc g) = buffer_names g"
  "vertex_array_binding (glVertexAttribPointer loc g) = vertex_array_binding g"
  "array_buffer_binding (glVertexAttribPointer loc g) = array_buffer_binding g"
  "draws (glVertexAttribPointer loc g) = draws g"
  "buffers (glVertexAttribPointer loc g) = buffers g"
  "vaos (glVertexAttribPointer loc g) =
     (if loc < 0 then vaos g
      else (case vaos g (vertex_array_binding g) of
              None \<Rightarrow> vaos g
            | Some v \<Rightarrow> (vaos g)(vertex_array_binding g \<mapsto>
                          v\<lparr>attrib_buffer := (attrib_buffer v)(loc \<mapsto> array_buffer_binding g)\<rparr>)))"
  by (simp_all add: glVertexAttribPointer_def split: option.split)

lemmas gl_fields = glBindVertexArray_fields glBindBuffer_fields glBufferData_fields
  glEnableVertexAttribArray_fields glVertexAttribPointer_fields

lemma upload_positions_fields:
  "vao_names (upload_positions m loc g) = vao_names g"
  "vertex_array_binding (upload_positions m loc g) = vertex_array_binding g"
  "draws (upload_positions m loc g) = draws g"
  "buffer_names (upload_positions m loc g) =
     (if HasPositions m then Suc (buffer_names g) else buffer_names g)"
  "buffers (upload_positions m loc g) =
     (if HasPositions m
      then (buffers g)(Suc (buffer_names g) \<mapsto> map Some (flat_positions (mVertices m)))
      else buffers g)"
  "vaos (upload_positions m loc g) =
     (case vaos g (vertex_array_binding g) of
        None \<Rightarrow> vaos g
      | Some v \<Rightarrow>
          if HasPositions m \<and> 0 \<le> loc
          then (vaos g)(vertex_array_binding g \<mapsto>
                 v\<lparr>attrib_enabled := insert loc (attrib_enabled v),
                   attrib_buffer := (attrib_buffer v)(loc \<mapsto> Suc (buffer_names g))\<rparr>)
          else vaos g)"
  by (simp_all add: upload_positions_def glGenBuffers_def gl_fields bound_buffer_def
      length_flat_positions mNumVertices_def split: option.split)

lemma upload_indices_fields:
  "vao_names (upload_indices n fa g) = vao_names g"
  "vertex_array_binding (upload_indices n fa g) = vertex_array_binding g"
  "draws (upload_indices n fa g) = draws g"
  "buffer_names (upload_indices n fa g) = Suc (buffer_names g)"
  "buffers (upload_indices n fa g) =
     (case vaos g (vertex_array_binding g) of
        None \<Rightarrow> (case buffers g (Suc (buffer_names g)) of
                   None \<Rightarrow> (buffers g)(Suc (buffer_names g) \<mapsto> [])
                 | Some d \<Rightarrow> buffers g)
      | Some v \<Rightarrow> (buffers g)(Suc (buffer_names g) \<mapsto> take n fa))"
  "vaos (upload_indices n fa g) =
     (case vaos g (vertex_array_binding g) of
        None \<Rightarrow> vaos g
      | Some v \<Rightarrow> (vaos g)(vertex_array_binding g \<mapsto> v\<lparr>element_buffer := Suc (buffer_names g)\<rparr>))"
  by (simp_all add: upload_indices_def glGenBuffers_def gl_fields bound_buffer_def
      split: option.split)

lemma close_bindings_fields:
  "vao_names (close_bindings g) = vao_names g"
  "buffer_names (close_bindings g) = buffer_names g"
  "vertex_array_binding (close_bindings g) = 0"
  "array_buffer_binding (close_bindings g) = 0"
  "draws (close_bindings g) = draws g"
  "buffers (close_bindings g) = buffers g"
  "vaos (close_bindings g) =
     (case vaos g 0 of None \<Rightarrow> vaos g | Some v \<Rightarrow> (vaos g)(0 \<mapsto> v\<lparr>element_buffer := 0\<rparr>))"
  by (simp_all add: close_bindings_def gl_fields split: option.split)



section \<open>One round of the upload loop\<close>

lemma upload_faces_Inr:
  assumes "upload_faces m s = Inr s'"
  shows "gl s' = faces_gl m (gl s)" "vaoArray s' = vaoArray s" "scene s' = scene s"
    "vPos s' = vPos s" "program s' = program s" "console s' = console s"
    "redisplay s' = redisplay s"
    "HasFaces m \<longrightarrow> (\<exists>fa k. flatten_faces m = Inr (fa, k))"
  using assms
  by (auto simp: upload_faces_def faces_gl_def dest: flatten_faces_length
      split: if_splits sum.splits prod.splits)

lemma upload_mesh_Inr:
  assumes "upload_mesh i m s = Inr s'"
  shows "gl s' = mesh_gl m (vPos s) (gl s)"
    "\<exists>va. vaoArray s = Some va \<and> i < length va \<and>
          vaoArray s' = Some (va[i := Some (Suc (vao_names (gl s)))])"
    "scene s' = scene s" "vPos s' = vPos s" "program s' = program s" "console s' = console s"
    "redisplay s' = redisplay s"
    "HasFaces m \<longrightarrow> (\<exists>fa k. flatten_faces m = Inr (fa, k))"
proof -
  let ?name = "Suc (vao_names (gl s))"
  let ?g3 = "upload_positions m (vPos s) (glBindVertexArray ?name (snd (glGenVertexArrays (gl s))))"
  from assms obtain va s1 where va: "vaoArray s = Some va" "i < length va"
    and s1: "upload_faces m (s\<lparr>vaoArray := Some (va[i := Some ?name]), gl := ?g3\<rparr>) = Inr s1"
    and s': "s' = s1\<lparr>gl := close_bindings (gl s1)\<rparr>"
    by (auto simp: upload_mesh_def write_cell_def glGenVertexArrays_def
        split: option.splits if_splits sum.splits)
  note f = upload_faces_Inr [OF s1]
  show "gl s' = mesh_gl m (vPos s) (gl s)"
    using f(1) s' by (simp add: mesh_gl_def)
  show "\<exists>va. vaoArray s = Some va \<and> i < length va \<and>
          vaoArray s' = Some (va[i := Some (Suc (vao_names (gl s)))])"
    using f(2) s' va by simp
  show "scene s' = scene s" using f(3) s' by simp
  show "vPos s' = vPos s" using f(4) s' by simp
  show "program s' = program s" using f(5) s' by simp
  show "console s' = console s" using f(6) s' by simp
  show "redisplay s' = redisplay s" using f(7) s' by simp
  show "HasFaces m \<longrightarrow> (\<exists>fa k. flatten_faces m = Inr (fa, k))" using f(8) .
qed

lemmas block_fields = glBindVertexArray_fields upload_positions_fields upload_indices_fields
  close_bindings_fields

lemma faces_gl_fields:
  "vao_names (faces_gl m g) = vao_names g"
  "vertex_array_binding (faces_gl m g) = vertex_array_binding g"
  "draws (faces_gl m g) = draws g"
  by (simp_all add: faces_gl_def upload_indices_fields split: sum.split prod.split)

lemma mesh_gl_simple:
  "vao_names (mesh_gl m loc g) = Suc (vao_names g)"
  "vertex_array_binding (mesh_gl m loc g) = 0"
  "draws (mesh_gl m loc g) = draws g"
  by (simp_all add: mesh_gl_def block_fields faces_gl_fields glGenVertexArrays_def)

lemma mesh_gl_frame: "gl_frame g (mesh_gl m loc g)"
  by (auto simp: gl_frame_def mesh_gl_def faces_gl_def block_fields glGenVertexArrays_def
      split: sum.split prod.split option.split)

lemma mesh_gl_ok:
  assumes "HasFaces m \<longrightarrow> (\<exists>fa k. flatten_faces m = Inr (fa, k))"
  shows "mesh_ok (mesh_gl m loc g) loc (Suc (vao_names g)) m"
  using assms
  by (auto simp: mesh_gl_def faces_gl_def block_fields mesh_ok_def vbo_ok_def
        ibo_ok_def empty_vao_def glGenVertexArrays_def
      split: sum.split prod.split option.split)


section \<open>The upload loop\<close>

lemma gl_frame_refl: "gl_frame g g"
  by (simp add: gl_frame_def)

lemma gl_frame_trans: "gl_frame g g' \<Longrightarrow> gl_frame g' g'' \<Longrightarrow> gl_frame g g''"
  by (auto simp: gl_frame_def)

lemma mesh_ok_frame:
  assumes "mesh_ok g loc name m" and "0 < name" and "name \<le> vao_names g" and "gl_frame g g'"
  shows "mesh_ok g' loc name m"
proof -
  from assms(1) obtain v where v: "vaos g name = Some v" "vbo_ok g loc v m" "ibo_ok g v m"
    by (auto simp: mesh_ok_def split: option.splits)
  have v': "vaos g' name = Some v"
    using assms(2-4) v(1) by (simp add: gl_frame_def)
  have le: "buffer_names g \<le> buffer_names g'"
    using assms(4) by (simp add: gl_frame_def)
  have same: "\<And>b. 0 < b \<Longrightarrow> b \<le> buffer_names g \<Longrightarrow> buffers g' b = buffers g b"
    using assms(4) by (simp add: gl_frame_def)
  have vbo: "vbo_ok g' loc v m"
  proof (cases "HasPositions m")
    case True
    with v(2) obtain b where b: "1 \<le> b" "b \<le> buffer_names g"
      "buffers g b = Some (map Some (flat_positions (mVertices m)))"
      "0 \<le> loc \<longrightarrow> attrib_buffer v loc = Some b \<and> loc \<in> attrib_enabled v"
      by (auto simp: vbo_ok_def)
    have "b \<in> {1..buffer_names g'}" using b(1,2) le by simp
    moreover have "buffers g' b = Some (map Some (flat_positions (mVertices m)))"
      using same [of b] b(1-3) by simp
    ultimately show ?thesis using True b(4) by (auto simp: vbo_ok_def)
  next
    case False
    with v(2) show ?thesis by (simp add: vbo_ok_def)
  qed
  have ibo: "ibo_ok g' v m"
  proof (cases "HasFaces m")
    case True
    with v(3) have eb: "1 \<le> element_buffer v" "element_buffer v \<le> buffer_names g"
      by (auto simp: ibo_ok_def)
    have "buffers g' (element_buffer v) = buffers g (element_buffer v)"
      using same [of "element_buffer v"] eb by simp
    with v(3) True eb le show ?thesis
      by (auto simp: ibo_ok_def split: sum.splits)
  next
    case False
    with v(3) show ?thesis by (simp add: ibo_ok_def)
  qed
  show ?thesis using v' vbo ibo by (simp add: mesh_ok_def)
qed

lemma upload_meshes_gl:
  assumes "upload_meshes i ms s = Inr s'"
  shows "gl_frame (gl s) (gl s') \<and>
         vao_names (gl s') = vao_names (gl s) + length ms \<and>
         draws (gl s') = draws (gl s) \<and>
         vertex_array_binding (gl s') = (if ms = [] then vertex_array_binding (gl s) else 0) \<and>
         scene s' = scene s \<and> vPos s' = vPos s \<and> program s' = program s \<and>
         console s' = console s \<and> redisplay s' = redisplay s"
  using assms
proof (induction ms arbitrary: i s)
  case Nil
  then show ?case by (simp add: gl_frame_refl)
next
  case (Cons m ms)
  from Cons.prems(1) obtain s1 where s1: "upload_mesh i m s = Inr s1"
    and rest: "upload_meshes (i + 1) ms s1 = Inr s'"
    by (auto split: sum.splits)
  note u = upload_mesh_Inr [OF s1]
  have fr1: "gl_frame (gl s) (gl s1)" using u(1) by (simp add: mesh_gl_frame)
  note ih = Cons.IH [OF rest]
  have "gl_frame (gl s) (gl s')" using fr1 ih gl_frame_trans by blast
  then show ?case
    using ih u by (simp add: mesh_gl_simple)
qed

lemma upload_meshes_table:
  assumes "upload_meshes i ms s = Inr s'" and "vaoArray s = Some va"
  shows "\<exists>va'. vaoArray s' = Some va' \<and> length va' = length va \<and>
           (\<forall>j<i. va' ! j = va ! j) \<and>
           (\<forall>j<length ms. i + j < length va \<and>
              va' ! (i + j) = Some (vao_names (gl s) + Suc j) \<and>
              mesh_ok (gl s') (vPos s) (vao_names (gl s) + Suc j) (ms ! j))"
  using assms
proof (induction ms arbitrary: i s va)
  case Nil
  then show ?case by simp
next
  case (Cons m ms)
  let ?vn = "vao_names (gl s)"
  from Cons.prems(1) obtain s1 where s1: "upload_mesh i m s = Inr s1"
    and rest: "upload_meshes (i + 1) ms s1 = Inr s'"
    by (auto split: sum.splits)
  note u = upload_mesh_Inr [OF s1]
  have i: "i < length va" and va1: "vaoArray s1 = Some (va[i := Some (Suc ?vn)])"
    using u(2) Cons.prems(2) by auto
  have vn1: "vao_names (gl s1) = Suc ?vn" using u(1) by (simp add: mesh_gl_simple)
  have ok1: "mesh_ok (gl s1) (vPos s) (Suc ?vn) m"
    using u(1) u(8) by (simp add: mesh_gl_ok)
  from Cons.IH [OF rest va1] obtain va' where va': "vaoArray s' = Some va'"
    "length va' = length va"
    "\<forall>j<i + 1. va' ! j = (va[i := Some (Suc ?vn)]) ! j"
    "\<forall>j<length ms. i + 1 + j < length va \<and>
        va' ! (i + 1 + j) = Some (vao_names (gl s1) + Suc j) \<and>
        mesh_ok (gl s') (vPos s1) (vao_names (gl s1) + Suc j) (ms ! j)"
    by auto
  have fr: "gl_frame (gl s1) (gl s')"
    using upload_meshes_gl [OF rest] by simp
  have ok: "mesh_ok (gl s') (vPos s) (Suc ?vn) m"
    using mesh_ok_frame [OF ok1 _ _ fr] vn1 by simp
  have low: "\<forall>j<i. va' ! j = va ! j"
    using va'(3) by auto
  have at_i: "va' ! i = Some (Suc ?vn)"
    using va'(3) i by auto
  have "i + j < length va \<and> va' ! (i + j) = Some (?vn + Suc j) \<and>
        mesh_ok (gl s') (vPos s) (?vn + Suc j) ((m # ms) ! j)"
    if "j < length (m # ms)" for j
  proof (cases j)
    case 0
    then show ?thesis using i at_i ok by simp
  next
    case (Suc k)
    then have "k < length ms" using that by simp
    with va'(4) have "i + 1 + k < length va \<and>
        va' ! (i + 1 + k) = Some (vao_names (gl s1) + Suc k) \<and>
        mesh_ok (gl s') (vPos s1) (vao_names (gl s1) + Suc k) (ms ! k)" by blast
    then show ?thesis using Suc vn1 u(4) by simp
  qed
  then show ?case using va'(1,2) low by blast
qed

section \<open>The whole of \<open>init\<close>\<close>

lemma upload_mesh_succeeds:
  assumes "vaoArray s = Some va" and "i < length va" and "faces_fit m"
  shows "\<exists>s'. upload_mesh i m s = Inr s'"
proof (cases "HasFaces m")
  case True
  then have ne: "mFaces m \<noteq> []" by (simp add: HasFaces_def)
  from flatten_faces_ok [OF ne] assms(3) obtain fa k where "flatten_faces m = Inr (fa, k)"
    by (auto simp: faces_fit_def)
  then show ?thesis
    using assms(1,2) True ne
    by (simp add: upload_mesh_def glGenVertexArrays_def write_cell_def upload_faces_def
        face_array_size_eq)
next
  case False
  then show ?thesis
    using assms(1,2)
    by (simp add: upload_mesh_def glGenVertexArrays_def write_cell_def upload_faces_def)
qed

lemma upload_meshes_succeeds:
  assumes "vaoArray s = Some va" and "i + length ms \<le> length va"
    and "\<forall>m \<in> set ms. faces_fit m"
  shows "\<exists>s'. upload_meshes i ms s = Inr s'"
  using assms
proof (induction ms arbitrary: i s va)
  case Nil
  then show ?case by simp
next
  case (Cons m ms)
  have "i < length va" using Cons.prems(2) by simp
  from upload_mesh_succeeds [OF Cons.prems(1) this] Cons.prems(3)
  obtain s1 where s1: "upload_mesh i m s = Inr s1" by auto
  from upload_mesh_Inr(2) [OF s1] Cons.prems(1)
  have va1: "vaoArray s1 = Some (va[i := Some (Suc (vao_names (gl s)))])" by auto
  have "i + 1 + length ms \<le> length (va[i := Some (Suc (vao_names (gl s)))])"
    using Cons.prems(2) by simp
  from Cons.IH [OF va1 this] Cons.prems(3) s1 show ?case by simp
qed

lemma cout_fields:
  "scene (cout l s) = scene s" "vaoArray (cout l s) = vaoArray s"
  "faceArray (cout l s) = faceArray s" "program (cout l s) = program s"
  "vPos (cout l s) = vPos s" "gl (cout l s) = gl s" "redisplay (cout l s) = redisplay s"
  "console (cout l s) = console s @ [l]"
  by (simp_all add: cout_def)

lemma build_shaders_fields:
  "scene (build_shaders e s) = scene s" "vaoArray (build_shaders e s) = vaoArray s"
  "faceArray (build_shaders e s) = faceArray s" "program (build_shaders e s) = program_name e"
  "vPos (build_shaders e s) = vPos_location e" "gl (build_shaders e s) = gl s"
  "redisplay (build_shaders e s) = redisplay s"
  by (simp_all add: build_shaders_def Let_def cout_fields)

text \<open>The state in which the upload loop starts.\<close>

lemma init_loaded:
  assumes "file_good e" and "read_file e = Inr sc"
  shows "\<exists>s0. init e s = upload_meshes 0 (scene_mMeshes sc) s0 \<and>
           gl s0 = gl s \<and> vPos s0 = vPos_location e \<and> scene s0 = Some sc \<and>
           vaoArray s0 = Some (replicate (mNumMeshes sc) None) \<and>
           redisplay s0 = redisplay s \<and> program s0 = program_name e"
  using assms
  apply (simp add: init_def load3DFile_def Let_def cout_fields)
  apply (intro exI conjI)
        apply (rule refl)
       apply (simp_all add: cout_fields build_shaders_fields)
  done

lemma init_failed:
  assumes "\<not> file_good e \<or> isl (read_file e)"
  shows "\<exists>s'. init e s = Inr s' \<and> gl s' = gl s \<and> vaoArray s' = vaoArray s \<and>
           faceArray s' = faceArray s \<and> redisplay s' = redisplay s \<and>
           scene s' = (if file_good e then None else scene s) \<and>
           console s' = console (build_shaders e s) @
             (if file_good e
              then [''Loading 3D file '' @ objectFileName, projl (read_file e)]
              else [''Unable to open the 3D file.''])"
  using assms
  by (cases "read_file e")
     (auto simp: init_def load3DFile_def Let_def cout_fields build_shaders_fields)

lemma init_succeeds:
  assumes "file_good e" and "read_file e = Inr sc"
    and "\<forall>m \<in> set (scene_mMeshes sc). faces_fit m"
  shows "\<exists>s'. init e s = Inr s'"
proof -
  from init_loaded [OF assms(1,2)] obtain s0
    where s0: "init e s = upload_meshes 0 (scene_mMeshes sc) s0"
      "vaoArray s0 = Some (replicate (mNumMeshes sc) None)" by blast
  have "0 + length (scene_mMeshes sc) \<le> length (replicate (mNumMeshes sc) (None :: nat cell))"
    by (simp add: mNumMeshes_def)
  from upload_meshes_succeeds [OF s0(2) this assms(3)] s0(1) show ?thesis by simp
qed

lemma init_table:
  assumes "file_good e" and "read_file e = Inr sc" and "init e s = Inr s'"
  shows "scene s' = Some sc" "vPos s' = vPos_location e"
    "draws (gl s') = draws (gl s)"
    "\<exists>va. vaoArray s' = Some va \<and> length va = mNumMeshes sc \<and>
       (\<forall>i<mNumMeshes sc.
          va ! i = Some (vao_names (gl s) + Suc i) \<and>
          mesh_ok (gl s') (vPos s') (vao_names (gl s) + Suc i) (scene_mMeshes sc ! i))"
    "vao_names (gl s') = vao_names (gl s) + mNumMeshes sc"
    "gl_frame (gl s) (gl s')"
    "vertex_array_binding (gl s) = 0 \<longrightarrow> vertex_array_binding (gl s') = 0"
proof -
  from init_loaded [OF assms(1,2)] obtain s0
    where s0: "init e s = upload_meshes 0 (scene_mMeshes sc) s0"
      "gl s0 = gl s" "vPos s0 = vPos_location e" "scene s0 = Some sc"
      "vaoArray s0 = Some (replicate (mNumMeshes sc) None)" by blast
  have run: "upload_meshes 0 (scene_mMeshes sc) s0 = Inr s'" using s0(1) assms(3) by simp
  note g = upload_meshes_gl [OF run]
  show "scene s' = Some sc" using g s0(4) by simp
  show vp: "vPos s' = vPos_location e" using g s0(3) by simp
  show "draws (gl s') = draws (gl s)" using g s0(2) by simp
  show "vao_names (gl s') = vao_names (gl s) + mNumMeshes sc"
    using g s0(2) by (simp add: mNumMeshes_def)
  show "gl_frame (gl s) (gl s')" using g s0(2) by simp
  show "vertex_array_binding (gl s) = 0 \<longrightarrow> vertex_array_binding (gl s') = 0"
    using g s0(2) by simp
  from upload_meshes_table [OF run s0(5)]
  show "\<exists>va. vaoArray s' = Some va \<and> length va = mNumMeshes sc \<and>
       (\<forall>i<mNumMeshes sc.
          va ! i = Some (vao_names (gl s) + Suc i) \<and>
          mesh_ok (gl s') (vPos s') (vao_names (gl s) + Suc i) (scene_mMeshes sc ! i))"
    using s0(2,3) vp by (auto simp: mNumMeshes_def)
qed

section \<open>The traversal follows its plan\<close>

lemma exec_fields:
  "scene (exec a s) = scene s" "vaoArray (exec a s) = vaoArray s"
  "faceArray (exec a s) = faceArray s" "program (exec a s) = program s"
  "vPos (exec a s) = vPos s" "redisplay (exec a s) = redisplay s"
  by (cases a; simp add: cout_fields)+

lemma run_fields:
  "scene (run as s) = scene s" "vaoArray (run as s) = vaoArray s"
  "faceArray (run as s) = faceArray s" "program (run as s) = program s"
  "vPos (run as s) = vPos s" "redisplay (run as s) = redisplay s"
  unfolding run_def by (induction as arbitrary: s; simp add: exec_fields)+

lemma run_Nil: "run [] s = s"
  by (simp add: run_def)

lemma run_Cons: "run (a # as) s = run as (exec a s)"
  by (simp add: run_def)

lemma run_append: "run (as @ bs) s = run bs (run as s)"
  by (simp add: run_def)

lemma draw_mesh_plan:
  "draw_mesh meshIndex s =
     (case mesh_plan (scene s) (vaoArray s) meshIndex of
        Inl e \<Rightarrow> Inl e
      | Inr a \<Rightarrow> Inr (exec a s))"
  by (simp add: draw_mesh_def mesh_plan_def Let_def split: option.split sum.split)

lemma draw_meshes_plan:
  "draw_meshes ms s =
     (case meshes_plan (scene s) (vaoArray s) ms of
        Inl e \<Rightarrow> Inl e
      | Inr as \<Rightarrow> Inr (run as s))"
proof (induction ms arbitrary: s)
  case Nil
  then show ?case by (simp add: run_Nil)
next
  case (Cons i ms)
  show ?case
    by (simp add: draw_mesh_plan Cons.IH exec_fields run_Cons split: sum.split)
qed

lemma traversal_plan:
  "nodeTreeTraversal n s =
     (case node_plan (scene s) (vaoArray s) n of
        Inl e \<Rightarrow> Inl e
      | Inr as \<Rightarrow> Inr (run as s))"
  "traverse_children cs s =
     (case children_plan (scene s) (vaoArray s) cs of
        Inl e \<Rightarrow> Inl e
      | Inr as \<Rightarrow> Inr (run as s))"
proof (induction n s and cs s rule: nodeTreeTraversal_traverse_children.induct)
  case (1 s)
  show ?case by (simp add: run_Cons run_Nil)
next
  case (2 meshes children s)
  show ?case
  proof (cases "meshes_plan (scene s) (vaoArray s) meshes")
    case (Inl e)
    then show ?thesis by (simp add: draw_meshes_plan)
  next
    case (Inr as)
    then have d: "draw_meshes meshes s = Inr (run as s)" by (simp add: draw_meshes_plan)
    from "2.IH" [OF d] Inr d show ?thesis
      by (simp add: run_fields run_append split: sum.split)
  qed
next
  case (3 s)
  show ?case by (simp add: run_Nil)
next
  case (4 child rest s)
  show ?case
  proof (cases "nodeTreeTraversal child s")
    case (Inl e)
    with "4.IH"(1) show ?thesis by (simp split: sum.splits)
  next
    case (Inr s1)
    with "4.IH"(1) obtain as where as: "node_plan (scene s) (vaoArray s) child = Inr as"
      "s1 = run as s" by (auto split: sum.splits)
    from "4.IH"(2) [OF Inr] Inr as show ?thesis
      by (simp add: run_fields run_append split: sum.split)
  qed
qed

lemma draw_gl:
  assumes "vertex_array_binding g = 0"
  shows "glBindVertexArray 0 (glDrawElements c (glBindVertexArray name g)) =
         g\<lparr>draws := draws g @
              [\<lparr>dc_vao = (if name = 0 then 0 else (case vaos g name of None \<Rightarrow> 0 | Some v \<Rightarrow> name)),
                dc_count = c\<rparr>]\<rparr>"
  using assms
  by (cases g) (simp add: glBindVertexArray_def glDrawElements_def split: option.split)

lemma draw_gl_fields:
  "vaos (glBindVertexArray 0 (glDrawElements c (glBindVertexArray name g))) = vaos g"
  "vertex_array_binding (glBindVertexArray 0 (glDrawElements c (glBindVertexArray name g))) = 0"
  "\<exists>d. draws (glBindVertexArray 0 (glDrawElements c (glBindVertexArray name g))) = draws g @ [d] \<and>
       dc_count d = c"
  by (simp_all add: glBindVertexArray_def glDrawElements_def split: option.split)

lemma rendered_append: "rendered V (as @ bs) = rendered V as @ rendered V bs"
  by (induction V as rule: rendered.induct) simp_all

lemma messages_append: "messages (as @ bs) = messages as @ messages bs"
  by (induction as rule: messages.induct) simp_all

lemma run_effect:
  assumes "vertex_array_binding (gl s) = 0"
  shows "run as s =
         s\<lparr>gl := (gl s)\<lparr>draws := draws (gl s) @ rendered (vaos (gl s)) as\<rparr>,
           console := console s @ messages as\<rparr>"
  using assms
proof (induction as arbitrary: s)
  case Nil
  show ?case by (simp add: run_Nil)
next
  case (Cons a as)
  show ?case
  proof (cases a)
    case (Draw name c)
    let ?d = "\<lparr>dc_vao = (if name = 0 then 0 else (case vaos (gl s) name of None \<Rightarrow> 0 | Some v \<Rightarrow> name)),
                dc_count = c\<rparr>"
    let ?s1 = "s\<lparr>gl := (gl s)\<lparr>draws := draws (gl s) @ [?d]\<rparr>\<rparr>"
    have e: "exec a s = ?s1"
      using Draw draw_gl [OF Cons.prems] by simp
    have b: "vertex_array_binding (gl ?s1) = 0" using Cons.prems by simp
    have r: "rendered (vaos (gl s)) (a # as) = ?d # rendered (vaos (gl s)) as"
      "messages (a # as) = messages as"
      using Draw by simp_all
    show ?thesis
      using Cons.IH [OF b] by (simp add: run_Cons e r)
  next
    case (Diagnostic l)
    have b: "vertex_array_binding (gl (exec a s)) = 0"
      using Diagnostic Cons.prems by (simp add: cout_fields)
    show ?thesis
      using Cons.IH [OF b] Diagnostic by (simp add: run_Cons cout_def)
  qed
qed

lemma run_counts:
  "\<exists>D. draws (gl (run as s)) = draws (gl s) @ D \<and>
       map dc_count D = map dc_count (rendered V as) \<and>
       console (run as s) = console s @ messages as"
proof (induction as arbitrary: s)
  case Nil
  show ?case by (simp add: run_Nil)
next
  case (Cons a as)
  show ?case
  proof (cases a)
    case (Draw name c)
    from draw_gl_fields(3) [of c name "gl s"] obtain d
      where d: "draws (gl (exec a s)) = draws (gl s) @ [d]" "dc_count d = c"
      using Draw by auto
    have c: "console (exec a s) = console s" using Draw by simp
    from Cons.IH [of "exec a s"] obtain D
      where D: "draws (gl (run as (exec a s))) = draws (gl (exec a s)) @ D"
        "map dc_count D = map dc_count (rendered V as)"
        "console (run as (exec a s)) = console (exec a s) @ messages as" by blast
    have "draws (gl (run (a # as) s)) = draws (gl s) @ (d # D)"
      using d(1) D(1) by (simp add: run_Cons)
    moreover have "map dc_count (d # D) = map dc_count (rendered V (a # as))"
      using d(2) D(2) Draw by simp
    moreover have "console (run (a # as) s) = console s @ messages (a # as)"
      using D(3) c Draw by (simp add: run_Cons)
    ultimately show ?thesis by blast
  next
    case (Diagnostic l)
    from Cons.IH [of "exec a s"] Diagnostic show ?thesis
      by (simp add: run_Cons cout_fields)
  qed
qed

lemma mesh_plan_Inr:
  assumes "mesh_plan (Some sc) vao i = Inr a"
  shows "\<exists>va name. vao = Some va \<and> i < length va \<and> va ! i = Some name \<and>
           i < mNumMeshes sc \<and> mFaces (scene_mMeshes sc ! i) \<noteq> [] \<and>
           a = Draw name (draw_count sc i)"
  using assms
  by (auto simp: mesh_plan_def read_cell_def read_elem_def draw_count_def mNumMeshes_def
        hd_conv_nth
      split: option.splits sum.splits if_splits)

lemma meshes_plan_counts:
  assumes "meshes_plan (Some sc) vao ms = Inr as"
  shows "map dc_count (rendered V as) = map (draw_count sc) ms \<and> messages as = []"
  using assms
proof (induction ms arbitrary: as)
  case Nil
  then show ?case by simp
next
  case (Cons i ms)
  from Cons.prems obtain a bs where a: "mesh_plan (Some sc) vao i = Inr a"
    and bs: "meshes_plan (Some sc) vao ms = Inr bs" and as: "as = a # bs"
    by (auto split: sum.splits)
  from mesh_plan_Inr [OF a] obtain name where "a = Draw name (draw_count sc i)" by blast
  with Cons.IH [OF bs] as show ?case by simp
qed

lemma node_plan_counts:
  "node_plan (Some sc) vao n = Inr as \<Longrightarrow>
     map dc_count (rendered V as) = map (draw_count sc) (spec_mesh_order n) \<and>
     messages as = replicate (null_nodes n) ''nodeTreeTraversal(): Null node''"
  "children_plan (Some sc) vao cs = Inr as \<Longrightarrow>
     map dc_count (rendered V as) = map (draw_count sc) (spec_children_order cs) \<and>
     messages as = replicate (null_children cs) ''nodeTreeTraversal(): Null node''"
proof (induction n and cs arbitrary: as and as rule: spec_mesh_order_spec_children_order.induct)
  case 1
  then show ?case by auto
next
  case (2 meshes children)
  from "2.prems" obtain bs cs' where bs: "meshes_plan (Some sc) vao meshes = Inr bs"
    and cs': "children_plan (Some sc) vao children = Inr cs'" and as: "as = bs @ cs'"
    by (auto split: sum.splits)
  from meshes_plan_counts [OF bs, of V] "2.IH" [OF cs'] as show ?case
    by (simp add: rendered_append messages_append)
next
  case 3
  then show ?case by auto
next
  case (4 child rest)
  from "4.prems" obtain bs cs' where bs: "node_plan (Some sc) vao child = Inr bs"
    and cs': "children_plan (Some sc) vao rest = Inr cs'" and as: "as = bs @ cs'"
    by (auto split: sum.splits)
  from "4.IH"(1) [OF bs] "4.IH"(2) [OF cs'] as show ?case
    by (simp add: rendered_append messages_append replicate_add)
qed

text \<open>
  The count the program computes is the product of the spec reduced modulo \<open>2 ^ 32\<close>; read
  as the signed argument of the draw call it is that product when it is below \<open>2 ^ 31\<close>.
\<close>

lemma draw_count_of_nat: "draw_count sc i = of_nat (spec_count sc i)"
  by (simp add: draw_count_def spec_count_def)

lemma unat_draw_count: "unat (draw_count sc i) = spec_count sc i mod 2 ^ 32"
  by (simp add: draw_count_of_nat unat_of_nat)

lemma sint_draw_count:
  assumes "spec_count sc i < 2 ^ 31"
  shows "sint (draw_count sc i) = int (spec_count sc i)"
proof -
  have "int (spec_count sc i) < 2 ^ 31" using assms by (simp flip: of_nat_less_iff)
  moreover have "- (2 ^ 31) \<le> int (spec_count sc i)" by simp
  ultimately have "signed_take_bit 31 (int (spec_count sc i)) = int (spec_count sc i)"
    by (rule signed_take_bit_int_eq_self [rotated])
  then show ?thesis by (simp add: draw_count_of_nat signed_of_nat)
qed

lemma map_unat_draw_count:
  assumes "map dc_count D = map (draw_count sc) ms"
  shows "map (\<lambda>d. unat (dc_count d)) D = map (\<lambda>i. spec_count sc i mod 2 ^ 32) ms"
proof -
  have "map (\<lambda>d. unat (dc_count d)) D = map unat (map dc_count D)" by simp
  also have "\<dots> = map unat (map (draw_count sc) ms)" using assms by simp
  also have "\<dots> = map (\<lambda>i. spec_count sc i mod 2 ^ 32) ms" by (simp add: unat_draw_count)
  finally show ?thesis .
qed

lemma map_sint_draw_count:
  assumes "map dc_count D = map (draw_count sc) ms"
    and "list_all (\<lambda>i. spec_count sc i < 2 ^ 31) ms"
  shows "map (\<lambda>d. sint (dc_count d)) D = map (\<lambda>i. int (spec_count sc i)) ms"
proof -
  have "map (\<lambda>d. sint (dc_count d)) D = map sint (map dc_count D)" by simp
  also have "\<dots> = map sint (map (draw_count sc) ms)" using assms(1) by simp
  also have "\<dots> = map (\<lambda>i. int (spec_count sc i)) ms"
    using assms(2) by (simp add: sint_draw_count list_all_iff)
  finally show ?thesis .
qed

section \<open>The state in which the program draws\<close>

lemma mesh_ok_cong:
  assumes "vaos g' = vaos g" and "buffers g' = buffers g" and "buffer_names g' = buffer_names g"
  shows "mesh_ok g' loc name m = mesh_ok g loc name m"
  using assms
  by (simp add: mesh_ok_def vbo_ok_def ibo_ok_def split: option.split sum.split prod.split)

lemma handle_table_ok_cong:
  assumes "vaoArray s' = vaoArray s" and "vPos s' = vPos s" and "vaos (gl s') = vaos (gl s)"
    and "buffers (gl s') = buffers (gl s)" and "buffer_names (gl s') = buffer_names (gl s)"
  shows "handle_table_ok sc s' = handle_table_ok sc s"
  using assms mesh_ok_cong [OF assms(3-5)]
  by (simp add: handle_table_ok_def split: option.split)

lemma distinct_handles:
  assumes "length va = n" and "\<forall>i<n. va ! i = Some (k + Suc i)"
  shows "distinct va"
  using assms by (auto simp: distinct_conv_nth)

lemma init_ready:
  assumes "file_good e" and "read_file e = Inr sc" and "init e initial_state = Inr s"
  shows "ready sc s"
proof -
  note t = init_table [OF assms]
  from t(4) obtain va where va: "vaoArray s = Some va" "length va = mNumMeshes sc"
    "\<forall>i<mNumMeshes sc. va ! i = Some (vao_names (gl initial_state) + Suc i) \<and>
        mesh_ok (gl s) (vPos s) (vao_names (gl initial_state) + Suc i) (scene_mMeshes sc ! i)"
    by blast
  have d: "distinct va"
    using distinct_handles [OF va(2), of "vao_names (gl initial_state)"] va(3) by blast
  have "handle_table_ok sc s"
    using va d by (simp add: handle_table_ok_def)
  moreover have "vertex_array_binding (gl s) = 0"
    using t(7) by (simp add: initial_state_def initial_gl_def)
  ultimately show ?thesis using t(1) by (simp add: ready_def)
qed






text \<open>No vertex array is bound in any state of the main loop.\<close>

lemma run_unbound:
  "vertex_array_binding (gl s) = 0 \<Longrightarrow> vertex_array_binding (gl (run as s)) = 0"
  by (simp add: run_effect)

lemma display_unbound:
  assumes "vertex_array_binding (gl s) = 0" and "display s = Inr s'"
  shows "vertex_array_binding (gl s') = 0"
proof (cases "scene s")
  case None
  with assms show ?thesis
    by (auto simp: display_def glUseProgram_def glutSwapBuffers_def)
next
  case (Some sc)
  let ?s1 = "s\<lparr>gl := glUseProgram (program s) (gl s)\<rparr>"
  from assms(2) Some obtain s2 where s2: "nodeTreeTraversal (mRootNode sc) ?s1 = Inr s2"
    and s': "s' = s2\<lparr>gl := glutSwapBuffers (gl s2)\<rparr>"
    by (auto simp: display_def Let_def split: sum.splits)
  from s2 obtain as where as: "s2 = run as ?s1"
    by (auto simp: traversal_plan split: sum.splits)
  have "vertex_array_binding (gl ?s1) = 0" using assms(1) by (simp add: glUseProgram_def)
  from run_unbound [OF this, of as] as s' show ?thesis by (simp add: glutSwapBuffers_def)
qed

lemma glutMainLoop_unbound:
  assumes "vertex_array_binding (gl s) = 0" and "glutMainLoop evs s = Inr (Running s')"
  shows "vertex_array_binding (gl s') = 0"
  using assms
proof (induction evs arbitrary: s)
  case Nil
  then show ?case by simp
next
  case (Cons ev evs)
  from Cons.prems(2) obtain s1 s2 where s1: "dispatch ev s = Inr (Running s1)"
    and s2: "redisplay_if_posted s1 = Inr s2" and rest: "glutMainLoop evs s2 = Inr (Running s')"
    by (auto split: sum.splits outcome.splits)
  have b1: "vertex_array_binding (gl s1) = 0"
  proof (cases ev)
    case DisplayEvent
    with s1 have "display s = Inr s1" by (auto simp: dispatch_def split: sum.splits)
    from display_unbound [OF Cons.prems(1) this] show ?thesis .
  next
    case (ReshapeEvent w h)
    with s1 Cons.prems(1) show ?thesis by (simp add: dispatch_def reshape_def)
  next
    case (KeyboardEvent key x y)
    with s1 Cons.prems(1) show ?thesis
      by (auto simp: dispatch_def keyboard_def glutPostRedisplay_def split: if_splits)
  qed
  have b2: "vertex_array_binding (gl s2) = 0"
  proof (cases "redisplay s1")
    case True
    with s2 have "display (s1\<lparr>redisplay := False\<rparr>) = Inr s2"
      by (simp add: redisplay_if_posted_def)
    from display_unbound [OF _ this] b1 show ?thesis by simp
  next
    case False
    with s2 b1 show ?thesis by (simp add: redisplay_if_posted_def)
  qed
  from Cons.IH [OF b2 rest] show ?case .
qed

lemma init_unbound:
  assumes "init e initial_state = Inr s"
  shows "vertex_array_binding (gl s) = 0"
proof (cases "file_good e \<and> \<not> isl (read_file e)")
  case True
  then obtain sc where "file_good e" "read_file e = Inr sc" by (cases "read_file e") auto
  from init_table(7) [OF this assms] show ?thesis
    by (simp add: initial_state_def initial_gl_def)
next
  case False
  then have "\<not> file_good e \<or> isl (read_file e)" by simp
  from init_failed [OF this, of initial_state] assms show ?thesis
    by (auto simp: initial_state_def initial_gl_def)
qed

lemma main_unbound:
  assumes "main e evs = Inr (Running s)"
  shows "vertex_array_binding (gl s) = 0"
proof -
  from assms obtain s0 where s0: "init e initial_state = Inr s0"
    and run: "glutMainLoop evs s0 = Inr (Running s)"
    by (auto simp: main_def split: sum.splits)
  from glutMainLoop_unbound [OF init_unbound [OF s0] run] show ?thesis .
qed

section \<open>Lookups, success and names of the traversal\<close>

lemma mesh_plan_safe:
  assumes "length va = mNumMeshes sc" and "i < mNumMeshes sc"
  shows "case mesh_plan (Some sc) (Some va) i of
           Inl e \<Rightarrow> \<not> table_lookup_failure e
         | Inr a \<Rightarrow> True"
  using assms
  by (simp add: mesh_plan_def read_cell_def read_elem_def mNumMeshes_def
      table_lookup_failure_def split: option.split sum.split)

lemma mesh_plan_total:
  assumes "length va = mNumMeshes sc" and "i < mNumMeshes sc"
    and "va ! i \<noteq> None" and "HasFaces (scene_mMeshes sc ! i)"
  shows "\<exists>a. mesh_plan (Some sc) (Some va) i = Inr a"
  using assms
  by (auto simp: mesh_plan_def read_cell_def read_elem_def mNumMeshes_def HasFaces_def)

lemma meshes_plan_safe:
  assumes "length va = mNumMeshes sc" and "list_all (\<lambda>i. i < mNumMeshes sc) ms"
  shows "case meshes_plan (Some sc) (Some va) ms of
           Inl e \<Rightarrow> \<not> table_lookup_failure e
         | Inr as \<Rightarrow> True"
  using assms(2)
proof (induction ms)
  case Nil
  then show ?case by simp
next
  case (Cons i ms)
  then have i: "i < mNumMeshes sc" and ms: "list_all (\<lambda>i. i < mNumMeshes sc) ms" by simp_all
  from mesh_plan_safe [OF assms(1) i] Cons.IH [OF ms] show ?case
    by (simp split: sum.splits)
qed

lemma meshes_plan_total:
  assumes "length va = mNumMeshes sc" and "list_all (\<lambda>i. i < mNumMeshes sc) ms"
    and "list_all (\<lambda>i. va ! i \<noteq> None \<and> HasFaces (scene_mMeshes sc ! i)) ms"
  shows "\<exists>as. meshes_plan (Some sc) (Some va) ms = Inr as"
  using assms(2,3)
proof (induction ms)
  case Nil
  then show ?case by simp
next
  case (Cons i ms)
  then have i: "i < mNumMeshes sc" "va ! i \<noteq> None" "HasFaces (scene_mMeshes sc ! i)"
    and ms: "list_all (\<lambda>i. i < mNumMeshes sc) ms"
      "list_all (\<lambda>i. va ! i \<noteq> None \<and> HasFaces (scene_mMeshes sc ! i)) ms" by simp_all
  from mesh_plan_total [OF assms(1) i] Cons.IH [OF ms] show ?case by auto
qed

lemma node_plan_safe:
  assumes "length va = mNumMeshes sc"
  shows "list_all (\<lambda>i. i < mNumMeshes sc) (spec_mesh_order n) \<Longrightarrow>
           (case node_plan (Some sc) (Some va) n of
              Inl e \<Rightarrow> \<not> table_lookup_failure e
            | Inr as \<Rightarrow> True)"
    and "list_all (\<lambda>i. i < mNumMeshes sc) (spec_children_order cs) \<Longrightarrow>
           (case children_plan (Some sc) (Some va) cs of
              Inl e \<Rightarrow> \<not> table_lookup_failure e
            | Inr as \<Rightarrow> True)"
proof (induction n and cs rule: spec_mesh_order_spec_children_order.induct)
  case 1
  show ?case by simp
next
  case (2 meshes children)
  then have m: "list_all (\<lambda>i. i < mNumMeshes sc) meshes"
    and c: "list_all (\<lambda>i. i < mNumMeshes sc) (spec_children_order children)" by simp_all
  from meshes_plan_safe [OF assms m] "2.IH" [OF c] show ?case
    by (simp split: sum.splits)
next
  case 3
  show ?case by simp
next
  case (4 child rest)
  then have m: "list_all (\<lambda>i. i < mNumMeshes sc) (spec_mesh_order child)"
    and c: "list_all (\<lambda>i. i < mNumMeshes sc) (spec_children_order rest)" by simp_all
  from "4.IH"(1) [OF m] "4.IH"(2) [OF c] show ?case
    by (simp split: sum.splits)
qed

lemma node_plan_total:
  assumes "length va = mNumMeshes sc"
  shows "list_all (\<lambda>i. i < mNumMeshes sc) (spec_mesh_order n) \<Longrightarrow>
         list_all (\<lambda>i. va ! i \<noteq> None \<and> HasFaces (scene_mMeshes sc ! i)) (spec_mesh_order n) \<Longrightarrow>
           \<exists>as. node_plan (Some sc) (Some va) n = Inr as"
    and "list_all (\<lambda>i. i < mNumMeshes sc) (spec_children_order cs) \<Longrightarrow>
         list_all (\<lambda>i. va ! i \<noteq> None \<and> HasFaces (scene_mMeshes sc ! i)) (spec_children_order cs) \<Longrightarrow>
           \<exists>as. children_plan (Some sc) (Some va) cs = Inr as"
proof (induction n and cs rule: spec_mesh_order_spec_children_order.induct)
  case 1
  show ?case by simp
next
  case (2 meshes children)
  then have m: "list_all (\<lambda>i. i < mNumMeshes sc) meshes"
      "list_all (\<lambda>i. va ! i \<noteq> None \<and> HasFaces (scene_mMeshes sc ! i)) meshes"
    and c: "list_all (\<lambda>i. i < mNumMeshes sc) (spec_children_order children)"
      "list_all (\<lambda>i. va ! i \<noteq> None \<and> HasFaces (scene_mMeshes sc ! i)) (spec_children_order children)"
    by simp_all
  from meshes_plan_total [OF assms m] "2.IH" [OF c] show ?case by auto
next
  case 3
  show ?case by simp
next
  case (4 child rest)
  then have m: "list_all (\<lambda>i. i < mNumMeshes sc) (spec_mesh_order child)"
      "list_all (\<lambda>i. va ! i \<noteq> None \<and> HasFaces (scene_mMeshes sc ! i)) (spec_mesh_order child)"
    and c: "list_all (\<lambda>i. i < mNumMeshes sc) (spec_children_order rest)"
      "list_all (\<lambda>i. va ! i \<noteq> None \<and> HasFaces (scene_mMeshes sc ! i)) (spec_children_order rest)"
    by simp_all
  from "4.IH"(1) [OF m] "4.IH"(2) [OF c] show ?case by auto
qed

text \<open>In a ready state every cell is written.\<close>

lemma ready_cells:
  assumes "ready sc s"
  shows "\<exists>va. vaoArray s = Some va \<and> length va = mNumMeshes sc \<and>
           (\<forall>i<mNumMeshes sc. \<exists>name v. va ! i = Some name \<and> 0 < name \<and>
              vaos (gl s) name = Some v)"
proof -
  from assms obtain va where va: "vaoArray s = Some va" "length va = mNumMeshes sc"
    and cells: "\<forall>i<mNumMeshes sc.
       case va ! i of
         None \<Rightarrow> False
       | Some name \<Rightarrow> 0 < name \<and> mesh_ok (gl s) (vPos s) name (scene_mMeshes sc ! i)"
    by (auto simp: ready_def handle_table_ok_def split: option.splits)
  have "\<exists>name v. va ! i = Some name \<and> 0 < name \<and> vaos (gl s) name = Some v"
    if "i < mNumMeshes sc" for i
  proof -
    from cells that obtain name where n: "va ! i = Some name" "0 < name"
      "mesh_ok (gl s) (vPos s) name (scene_mMeshes sc ! i)"
      by (cases "va ! i") auto
    from n(3) obtain v where "vaos (gl s) name = Some v"
      by (auto simp: mesh_ok_def split: option.splits)
    with n(1,2) show ?thesis by blast
  qed
  with va show ?thesis by blast
qed

lemma traversal_succeeds:
  assumes "ready sc s" and "indices_below (mNumMeshes sc) n"
    and "list_all (\<lambda>i. HasFaces (scene_mMeshes sc ! i)) (spec_mesh_order n)"
  shows "\<exists>s'. nodeTreeTraversal n s = Inr s'"
proof -
  from ready_cells [OF assms(1)] obtain va where va: "vaoArray s = Some va"
    "length va = mNumMeshes sc" "\<forall>i<mNumMeshes sc. va ! i \<noteq> None" by fastforce
  have sc: "scene s = Some sc" using assms(1) by (simp add: ready_def)
  have b: "list_all (\<lambda>i. i < mNumMeshes sc) (spec_mesh_order n)"
    using assms(2) by (simp add: indices_below_def)
  have "list_all (\<lambda>i. va ! i \<noteq> None \<and> HasFaces (scene_mMeshes sc ! i)) (spec_mesh_order n)"
    using b assms(3) va(3) by (auto simp: list_all_iff)
  from node_plan_total(1) [OF va(2) b this] show ?thesis
    using va(1) sc by (auto simp: traversal_plan)
qed

lemma mesh_plan_names:
  assumes "ready sc s" and "mesh_plan (Some sc) (vaoArray s) i = Inr a"
  shows "map dc_vao (rendered (vaos (gl s)) [a]) = [mesh_handle s i]"
proof -
  from mesh_plan_Inr [OF assms(2)] obtain va name where n: "vaoArray s = Some va"
    "i < length va" "va ! i = Some name" "i < mNumMeshes sc" "a = Draw name (draw_count sc i)"
    by blast
  from ready_cells [OF assms(1)] n(1,3,4) obtain v where "0 < name" "vaos (gl s) name = Some v"
    by fastforce
  then show ?thesis using n by (simp add: mesh_handle_def)
qed

lemma meshes_plan_names:
  assumes "ready sc s" and "meshes_plan (Some sc) (vaoArray s) ms = Inr as"
  shows "map dc_vao (rendered (vaos (gl s)) as) = map (mesh_handle s) ms"
  using assms(2)
proof (induction ms arbitrary: as)
  case Nil
  then show ?case by simp
next
  case (Cons i ms)
  from Cons.prems obtain a bs where a: "mesh_plan (Some sc) (vaoArray s) i = Inr a"
    and bs: "meshes_plan (Some sc) (vaoArray s) ms = Inr bs" and as: "as = [a] @ bs"
    by (auto split: sum.splits)
  from mesh_plan_names [OF assms(1) a] Cons.IH [OF bs] show ?case
    unfolding as rendered_append by simp
qed

lemma node_plan_names:
  assumes "ready sc s"
  shows "node_plan (Some sc) (vaoArray s) n = Inr as \<Longrightarrow>
           map dc_vao (rendered (vaos (gl s)) as) = map (mesh_handle s) (spec_mesh_order n)"
    and "children_plan (Some sc) (vaoArray s) cs = Inr as \<Longrightarrow>
           map dc_vao (rendered (vaos (gl s)) as) = map (mesh_handle s) (spec_children_order cs)"
proof (induction n and cs arbitrary: as and as rule: spec_mesh_order_spec_children_order.induct)
  case 1
  then show ?case by auto
next
  case (2 meshes children)
  from "2.prems" obtain bs cs' where bs: "meshes_plan (Some sc) (vaoArray s) meshes = Inr bs"
    and cs': "children_plan (Some sc) (vaoArray s) children = Inr cs'" and as: "as = bs @ cs'"
    by (auto split: sum.splits)
  from meshes_plan_names [OF assms bs] "2.IH" [OF cs'] as show ?case
    by (simp add: rendered_append)
next
  case 3
  then show ?case by auto
next
  case (4 child rest)
  from "4.prems" obtain bs cs' where bs: "node_plan (Some sc) (vaoArray s) child = Inr bs"
    and cs': "children_plan (Some sc) (vaoArray s) rest = Inr cs'" and as: "as = bs @ cs'"
    by (auto split: sum.splits)
  from "4.IH"(1) [OF bs] "4.IH"(2) [OF cs'] as show ?case
    by (simp add: rendered_append)
qed

section \<open>The example scene loads\<close>

lemmas example_defs = example_env_def example_scene_def square_mesh_def triangle_mesh_def
  triangle_def vertex_def

lemma example_fit: "\<forall>m \<in> set (scene_mMeshes example_scene). faces_fit m"
  by (simp add: example_defs faces_fit_def total_indices_def spec_flat_indices_def
      mNumFaces_def mNumIndices_def)

lemma example_init: "\<exists>s. init example_env initial_state = Inr s"
  by (rule init_succeeds [OF _ _ example_fit]) (simp_all add: example_env_def)


section \<open>Claims about the upload\<close>






section \<open>Claims about the handle table\<close>

text \<open>
  Claim C2. When the file loads and \<open>init\<close> returns, then for every mesh \<open>i\<close> of the scene
  that has vertex positions there is a buffer whose data are the floats of the mesh's
  position array, unchanged and in the same order, three for each of its \<open>mNumVertices\<close>
  vertices; when the attribute \<open>vPos\<close> was found in the shader program, this buffer is the
  source of that attribute in the vertex array in \<open>vaoArray[i]\<close>.
\<close>

theorem vertex_buffer_identity_copy:
  assumes "file_good e" and "read_file e = Inr sc" and "init e initial_state = Inr s"
    and "i < mNumMeshes sc" and "HasPositions (scene_mMeshes sc ! i)"
  shows "(\<exists>b. buffers (gl s) b = Some (map Some (flat_positions (mVertices (scene_mMeshes sc ! i))))) \<and>
         length (flat_positions (mVertices (scene_mMeshes sc ! i)))
           = 3 * mNumVertices (scene_mMeshes sc ! i) \<and>
         (0 \<le> vPos_location e \<longrightarrow>
            vertex_buffer_of s i
              = Some (map Some (flat_positions (mVertices (scene_mMeshes sc ! i)))))"
proof -
  let ?m = "scene_mMeshes sc ! i"
  let ?name = "vao_names (gl initial_state) + Suc i"
  note t = init_table [OF assms(1-3)]
  from t(4) assms(4) obtain va where va: "vaoArray s = Some va" "length va = mNumMeshes sc"
    "va ! i = Some ?name" "mesh_ok (gl s) (vPos s) ?name ?m" by blast
  from va(4) obtain v where v: "vaos (gl s) ?name = Some v" "vbo_ok (gl s) (vPos s) v ?m"
    by (auto simp: mesh_ok_def split: option.splits)
  from v(2) assms(5) obtain b
    where b: "buffers (gl s) b = Some (map Some (flat_positions (mVertices ?m)))"
      "0 \<le> vPos s \<longrightarrow> attrib_buffer v (vPos s) = Some b"
    by (auto simp: vbo_ok_def)
  have "0 \<le> vPos_location e \<longrightarrow>
          vertex_buffer_of s i = Some (map Some (flat_positions (mVertices ?m)))"
    using va(1-3) assms(4) v(1) b t(2) by (simp add: vertex_buffer_of_def mesh_vao_def)
  then show ?thesis
    using b(1) by (auto simp: length_flat_positions mNumVertices_def)
qed

theorem vertex_buffer_identity_copy_witness:
  "\<exists>s. init example_env initial_state = Inr s \<and>
       vertex_buffer_of s 1 = Some (map Some [40, 41, 42, 50, 51, 52, 60, 61, 62]) \<and>
       mNumVertices triangle_mesh = 3"
proof -
  from example_init obtain s where s: "init example_env initial_state = Inr s" by blast
  have e: "file_good example_env" "read_file example_env = Inr example_scene"
    by (simp_all add: example_env_def)
  have m: "scene_mMeshes example_scene ! 1 = triangle_mesh" "1 < mNumMeshes example_scene"
    by (simp_all add: example_scene_def mNumMeshes_def)
  have p: "HasPositions triangle_mesh" "0 \<le> vPos_location example_env"
    "flat_positions (mVertices triangle_mesh) = [40, 41, 42, 50, 51, 52, 60, 61, 62]"
    "mNumVertices triangle_mesh = 3"
    by (simp_all add: example_defs HasPositions_def mNumVertices_def)
  have "vertex_buffer_of s 1 = Some (map Some [40, 41, 42, 50, 51, 52, 60, 61, 62])"
    using vertex_buffer_identity_copy [OF e s, of 1] m p by simp
  then show ?thesis using s p(4) by blast
qed



section \<open>The example scene is drawn\<close>

lemma init_handles:
  assumes "file_good e" and "read_file e = Inr sc" and "init e initial_state = Inr s"
    and "i < mNumMeshes sc"
  shows "mesh_handle s i = Suc i"
proof -
  from init_table(4) [OF assms(1-3)] assms(4) obtain va where "vaoArray s = Some va"
    "length va = mNumMeshes sc" "va ! i = Some (vao_names (gl initial_state) + Suc i)"
    by blast
  then show ?thesis
    using assms(4) by (simp add: mesh_handle_def initial_state_def initial_gl_def)
qed

lemma example_ready:
  "\<exists>s. init example_env initial_state = Inr s \<and> ready example_scene s \<and>
       draws (gl s) = [] \<and> mesh_handle s 0 = 1 \<and> mesh_handle s 1 = 2"
proof -
  from example_init obtain s where s: "init example_env initial_state = Inr s" by blast
  have e: "file_good example_env" "read_file example_env = Inr example_scene"
    by (simp_all add: example_env_def)
  have n: "0 < mNumMeshes example_scene" "1 < mNumMeshes example_scene"
    by (simp_all add: example_scene_def mNumMeshes_def)
  have "draws (gl s) = []"
    using init_table(3) [OF e s] by (simp add: initial_state_def initial_gl_def)
  then show ?thesis
    using s init_ready [OF e s] init_handles [OF e s n(1)] init_handles [OF e s n(2)]
    by auto
qed

lemma example_tree:
  "spec_mesh_order (mRootNode example_scene) = [0, 1, 0, 1]"
  "null_nodes (mRootNode example_scene) = 1"
  "indices_below (mNumMeshes example_scene) (mRootNode example_scene)"
  "list_all (\<lambda>i. HasFaces (scene_mMeshes example_scene ! i))
     (spec_mesh_order (mRootNode example_scene))"
  by (simp_all add: example_defs indices_below_def mNumMeshes_def HasFaces_def)

lemma example_counts:
  "spec_count example_scene 0 = 6" "spec_count example_scene (Suc 0) = 3"
  by (simp_all add: example_defs spec_count_def mNumFaces_def mNumIndices_def)

lemma example_traversal:
  "\<exists>s s'. init example_env initial_state = Inr s \<and> ready example_scene s \<and>
       draws (gl s) = [] \<and> mesh_handle s 0 = 1 \<and> mesh_handle s 1 = 2 \<and>
       nodeTreeTraversal (mRootNode example_scene) s = Inr s'"
proof -
  from example_ready obtain s where s: "init example_env initial_state = Inr s"
    "ready example_scene s" "draws (gl s) = []" "mesh_handle s 0 = 1" "mesh_handle s 1 = 2"
    by blast
  from traversal_succeeds [OF s(2) example_tree(3,4)] s show ?thesis by blast
qed


section \<open>Claims about the traversal\<close>

text \<open>
  What a traversal that returns has appended, with the element counts as the program
  computes them.
\<close>

lemma traversal_appends:
  assumes "scene s = Some sc" and "nodeTreeTraversal n s = Inr s'"
  shows "nodeTreeTraversal None s = Inr (cout ''nodeTreeTraversal(): Null node'' s) \<and>
         nodeTreeTraversal (Some (aiNode [] cs)) s = traverse_children cs s \<and>
         (\<exists>D. draws (gl s') = draws (gl s) @ D \<and>
              map dc_count D = map (draw_count sc) (spec_mesh_order n) \<and>
              (ready sc s \<longrightarrow> map dc_vao D = map (mesh_handle s) (spec_mesh_order n))) \<and>
         console s' = console s @ replicate (null_nodes n) ''nodeTreeTraversal(): Null node''"
proof -
  from assms obtain as where as: "node_plan (Some sc) (vaoArray s) n = Inr as"
    and s': "s' = run as s"
    by (auto simp: traversal_plan split: sum.splits)
  have con: "console s' = console s @ replicate (null_nodes n) ''nodeTreeTraversal(): Null node''"
    using run_counts [of as s] node_plan_counts(1) [OF as] s' by auto
  have "\<exists>D. draws (gl s') = draws (gl s) @ D \<and>
              map dc_count D = map (draw_count sc) (spec_mesh_order n) \<and>
              (ready sc s \<longrightarrow> map dc_vao D = map (mesh_handle s) (spec_mesh_order n))"
  proof (cases "ready sc s")
    case True
    then have b: "vertex_array_binding (gl s) = 0" by (simp add: ready_def)
    have "draws (gl s') = draws (gl s) @ rendered (vaos (gl s)) as"
      using run_effect [OF b, of as] s' by simp
    moreover have "map dc_count (rendered (vaos (gl s)) as)
                     = map (draw_count sc) (spec_mesh_order n)"
      using node_plan_counts(1) [OF as] by simp
    moreover have "map dc_vao (rendered (vaos (gl s)) as)
                     = map (mesh_handle s) (spec_mesh_order n)"
      using node_plan_names(1) [OF True as] .
    ultimately show ?thesis by blast
  next
    case False
    from run_counts [of as s "vaos (gl s)"] obtain D
      where "draws (gl (run as s)) = draws (gl s) @ D"
        "map dc_count D = map dc_count (rendered (vaos (gl s)) as)" by blast
    then show ?thesis
      using False s' node_plan_counts(1) [OF as, of "vaos (gl s)"] by auto
  qed
  then show ?thesis using con by simp
qed


text \<open>
  Claim C4, as the code has it. A null node only writes the diagnostic line; a node
  without meshes does exactly what the traversal of its children does. Whenever the
  traversal of a node tree returns, the draw calls it has added to the log are, in this
  order, one for each mesh index attached to the node, in attachment order, followed by
  those of the children, depth-first and in child-array order. The element count of the
  call for mesh index \<open>i\<close> is the face count of mesh \<open>i\<close> multiplied by the index count of
  its first face, reduced modulo \<open>2 ^ 32\<close>, since the source multiplies two
  \<open>unsigned int\<close>; when these products are below \<open>2 ^ 31\<close>, the counts that the calls
  receive as signed values are the products themselves. In the state in which the program
  draws, each call is issued with the vertex array named in \<open>vaoArray[i]\<close> bound; and one
  diagnostic line is written for each null node of the tree.
\<close>

theorem traversal_draws:
  assumes "scene s = Some sc" and "nodeTreeTraversal n s = Inr s'"
  shows "nodeTreeTraversal None s = Inr (cout ''nodeTreeTraversal(): Null node'' s) \<and>
         nodeTreeTraversal (Some (aiNode [] cs)) s = traverse_children cs s \<and>
         (\<exists>D. draws (gl s') = draws (gl s) @ D \<and>
              map (\<lambda>d. unat (dc_count d)) D
                = map (\<lambda>i. spec_count sc i mod 2 ^ 32) (spec_mesh_order n) \<and>
              (list_all (\<lambda>i. spec_count sc i < 2 ^ 31) (spec_mesh_order n) \<longrightarrow>
                 map (\<lambda>d. sint (dc_count d)) D
                   = map (\<lambda>i. int (spec_count sc i)) (spec_mesh_order n)) \<and>
              (ready sc s \<longrightarrow> map dc_vao D = map (mesh_handle s) (spec_mesh_order n))) \<and>
         console s' = console s @ replicate (null_nodes n) ''nodeTreeTraversal(): Null node''"
proof -
  from traversal_appends [OF assms, of cs] obtain D
    where D: "draws (gl s') = draws (gl s) @ D"
      "map dc_count D = map (draw_count sc) (spec_mesh_order n)"
      "ready sc s \<longrightarrow> map dc_vao D = map (mesh_handle s) (spec_mesh_order n)"
    and rest: "nodeTreeTraversal None s = Inr (cout ''nodeTreeTraversal(): Null node'' s)"
      "nodeTreeTraversal (Some (aiNode [] cs)) s = traverse_children cs s"
      "console s' = console s @ replicate (null_nodes n) ''nodeTreeTraversal(): Null node''"
    by blast
  have u: "map (\<lambda>d. unat (dc_count d)) D
             = map (\<lambda>i. spec_count sc i mod 2 ^ 32) (spec_mesh_order n)"
    using map_unat_draw_count [OF D(2)] .
  have g: "list_all (\<lambda>i. spec_count sc i < 2 ^ 31) (spec_mesh_order n) \<longrightarrow>
             map (\<lambda>d. sint (dc_count d)) D
               = map (\<lambda>i. int (spec_count sc i)) (spec_mesh_order n)"
    using map_sint_draw_count [OF D(2)] by blast
  from D(1) u g D(3) have "\<exists>D. draws (gl s') = draws (gl s) @ D \<and>
              map (\<lambda>d. unat (dc_count d)) D
                = map (\<lambda>i. spec_count sc i mod 2 ^ 32) (spec_mesh_order n) \<and>
              (list_all (\<lambda>i. spec_count sc i < 2 ^ 31) (spec_mesh_order n) \<longrightarrow>
                 map (\<lambda>d. sint (dc_count d)) D
                   = map (\<lambda>i. int (spec_count sc i)) (spec_mesh_order n)) \<and>
              (ready sc s \<longrightarrow> map dc_vao D = map (mesh_handle s) (spec_mesh_order n))"
    by blast
  with rest show ?thesis by simp
qed

theorem traversal_draws_witness:
  "\<exists>s s'. init example_env initial_state = Inr s \<and>
       nodeTreeTraversal (mRootNode example_scene) s = Inr s' \<and>
       map (\<lambda>d. unat (dc_count d)) (draws (gl s')) = [6, 3, 6, 3] \<and>
       map (\<lambda>d. sint (dc_count d)) (draws (gl s')) = [6, 3, 6, 3] \<and>
       map dc_vao (draws (gl s')) = [1, 2, 1, 2] \<and>
       console s' = console s @ [''nodeTreeTraversal(): Null node'']"
proof -
  from example_traversal obtain s s' where s: "init example_env initial_state = Inr s"
    "ready example_scene s" "draws (gl s) = []" "mesh_handle s 0 = 1" "mesh_handle s 1 = 2"
    "nodeTreeTraversal (mRootNode example_scene) s = Inr s'" by blast
  have sc: "scene s = Some example_scene" using s(2) by (simp add: ready_def)
  have small: "list_all (\<lambda>i. spec_count example_scene i < 2 ^ 31)
                 (spec_mesh_order (mRootNode example_scene))"
    by (simp add: example_tree example_counts)
  from traversal_draws [OF sc s(6)] s(2) small obtain D
    where D: "draws (gl s') = draws (gl s) @ D"
      "map (\<lambda>d. unat (dc_count d)) D
         = map (\<lambda>i. spec_count example_scene i mod 2 ^ 32)
             (spec_mesh_order (mRootNode example_scene))"
      "map (\<lambda>d. sint (dc_count d)) D
         = map (\<lambda>i. int (spec_count example_scene i))
             (spec_mesh_order (mRootNode example_scene))"
      "map dc_vao D = map (mesh_handle s) (spec_mesh_order (mRootNode example_scene))"
    and con: "console s' = console s @
       replicate (null_nodes (mRootNode example_scene)) ''nodeTreeTraversal(): Null node''"
    by blast
  have "map (\<lambda>d. unat (dc_count d)) (draws (gl s')) = [6, 3, 6, 3]"
    using D(1,2) s(3) by (simp add: example_tree example_counts)
  moreover have "map (\<lambda>d. sint (dc_count d)) (draws (gl s')) = [6, 3, 6, 3]"
    using D(1,3) s(3) by (simp add: example_tree example_counts)
  moreover have "map dc_vao (draws (gl s')) = [1, 2, 1, 2]"
    using D(1,4) s(3,4,5) by (simp add: example_tree)
  moreover have "console s' = console s @ [''nodeTreeTraversal(): Null node'']"
    using con by (simp add: example_tree)
  ultimately have "init example_env initial_state = Inr s \<and>
       nodeTreeTraversal (mRootNode example_scene) s = Inr s' \<and>
       map (\<lambda>d. unat (dc_count d)) (draws (gl s')) = [6, 3, 6, 3] \<and>
       map (\<lambda>d. sint (dc_count d)) (draws (gl s')) = [6, 3, 6, 3] \<and>
       map dc_vao (draws (gl s')) = [1, 2, 1, 2] \<and>
       console s' = console s @ [''nodeTreeTraversal(): Null node'']"
    using s(1,6) by simp
  then show ?thesis by - (rule exI, rule exI, assumption)
qed

text \<open>
  The claim's count, the product itself, fails where the product does not fit: the one
  mesh of \<open>wide_scene\<close> has 65536 faces and its first face has 65536 indices, so the
  product is \<open>2 ^ 32\<close>; \<open>init\<close> returns, the traversal of the root node returns, and the one
  draw call it issues has the element count 0.
\<close>

theorem traversal_count_counterexample:
  "spec_count wide_scene 0 = 4294967296 \<and>
   spec_mesh_order (mRootNode wide_scene) = [0] \<and>
   (case init wide_env initial_state of
      Inl e \<Rightarrow> False
    | Inr s \<Rightarrow>
        (case nodeTreeTraversal (mRootNode wide_scene) s of
           Inl e \<Rightarrow> False
         | Inr s' \<Rightarrow> map (\<lambda>d. unat (dc_count d)) (draws (gl s')) = [0]))"
proof -
  have e: "file_good wide_env" "read_file wide_env = Inr wide_scene"
    by (simp_all add: wide_env_def)
  have c: "spec_count wide_scene 0 = 4294967296"
    by (simp add: spec_count_def wide_scene_def wide_mesh_def mNumFaces_def mNumIndices_def)
  have o: "spec_mesh_order (mRootNode wide_scene) = [0]"
    by (simp add: wide_scene_def)
  have fit: "\<forall>m \<in> set (scene_mMeshes wide_scene). faces_fit m"
    by (simp add: wide_scene_def wide_mesh_def faces_fit_def total_indices_def
        spec_flat_indices_def mNumFaces_def mNumIndices_def)
  from init_succeeds [OF e fit] obtain s where s: "init wide_env initial_state = Inr s"
    by blast
  have r: "ready wide_scene s" using init_ready [OF e s] .
  have d: "draws (gl s) = []"
    using init_table(3) [OF e s] by (simp add: initial_state_def initial_gl_def)
  have b: "indices_below (mNumMeshes wide_scene) (mRootNode wide_scene)"
    by (simp add: indices_below_def o) (simp add: wide_scene_def mNumMeshes_def)
  have f: "list_all (\<lambda>i. HasFaces (scene_mMeshes wide_scene ! i))
             (spec_mesh_order (mRootNode wide_scene))"
    by (simp add: o) (simp add: wide_scene_def wide_mesh_def HasFaces_def)
  from traversal_succeeds [OF r b f] obtain s'
    where s': "nodeTreeTraversal (mRootNode wide_scene) s = Inr s'" by blast
  have sc: "scene s = Some wide_scene" using r by (simp add: ready_def)
  from traversal_appends [OF sc s', of "[]"] obtain D
    where D: "draws (gl s') = draws (gl s) @ D"
      "map dc_count D = map (draw_count wide_scene) (spec_mesh_order (mRootNode wide_scene))"
    by blast
  have "map (\<lambda>d. unat (dc_count d)) D = [0]"
    using map_unat_draw_count [OF D(2)] by (simp add: o c)
  then have "map (\<lambda>d. unat (dc_count d)) (draws (gl s')) = [0]"
    using D(1) d by simp
  with c o s s' show ?thesis by simp
qed

text \<open>
  Claim C10. When \<open>vaoArray\<close> has one cell for each mesh of the scene and every mesh index
  attached to a node of the tree is below the mesh count of the scene, no lookup in
  \<open>vaoArray\<close> or in the mesh array of the scene during the traversal is out of bounds or
  goes through a null pointer: the traversal can only fail where it reads the first face
  of a mesh or a cell never written. When moreover the cells of the attached meshes are
  written and these meshes have faces, the traversal returns.
\<close>

theorem traversal_lookups_in_bounds:
  assumes "scene s = Some sc" and "vaoArray s = Some va" and "length va = mNumMeshes sc"
    and "indices_below (mNumMeshes sc) n"
  shows "(case nodeTreeTraversal n s of
            Inl e \<Rightarrow> \<not> table_lookup_failure e
          | Inr s' \<Rightarrow> True) \<and>
         (list_all (\<lambda>i. va ! i \<noteq> None \<and> HasFaces (scene_mMeshes sc ! i)) (spec_mesh_order n)
            \<longrightarrow> (\<exists>s'. nodeTreeTraversal n s = Inr s'))"
proof -
  have b: "list_all (\<lambda>i. i < mNumMeshes sc) (spec_mesh_order n)"
    using assms(4) by (simp add: indices_below_def)
  have "case nodeTreeTraversal n s of Inl e \<Rightarrow> \<not> table_lookup_failure e | Inr s' \<Rightarrow> True"
    using node_plan_safe(1) [OF assms(3) b] assms(1,2)
    by (simp add: traversal_plan split: sum.splits)
  moreover have "\<exists>s'. nodeTreeTraversal n s = Inr s'"
    if "list_all (\<lambda>i. va ! i \<noteq> None \<and> HasFaces (scene_mMeshes sc ! i)) (spec_mesh_order n)"
    using node_plan_total(1) [OF assms(3) b that] assms(1,2)
    by (auto simp: traversal_plan)
  ultimately show ?thesis by blast
qed

theorem traversal_lookups_in_bounds_witness:
  "\<exists>s s'. init example_env initial_state = Inr s \<and>
       indices_below (mNumMeshes example_scene) (mRootNode example_scene) \<and>
       nodeTreeTraversal (mRootNode example_scene) s = Inr s'"
proof -
  from example_ready obtain s where s: "init example_env initial_state = Inr s"
    "ready example_scene s" by blast
  from ready_cells [OF s(2)] obtain va where va: "vaoArray s = Some va"
    "length va = mNumMeshes example_scene"
    "\<forall>i<mNumMeshes example_scene. va ! i \<noteq> None" by fastforce
  have sc: "scene s = Some example_scene" using s(2) by (simp add: ready_def)
  have "list_all (\<lambda>i. va ! i \<noteq> None \<and> HasFaces (scene_mMeshes example_scene ! i))
          (spec_mesh_order (mRootNode example_scene))"
    using va(3) example_tree(3,4) by (auto simp: list_all_iff indices_below_def)
  with traversal_lookups_in_bounds [OF sc va(1,2) example_tree(3)]
  obtain s' where "nodeTreeTraversal (mRootNode example_scene) s = Inr s'" by blast
  then show ?thesis using s(1) example_tree(3) by blast
qed

text \<open>
  Claim C7. When no vertex array is bound (as is the case whenever the program calls the
  traversal) and the traversal returns, it has changed nothing but the log of draw calls
  and the console, to which it has appended: the scene, \<open>vaoArray\<close>, \<open>faceArray\<close> and the
  objects of the graphics library are as before. A second traversal of the resulting
  state returns as well and appends the same draw calls and the same lines once more,
  again changing nothing else.
\<close>

theorem traversal_idempotent:
  assumes "vertex_array_binding (gl s) = 0" and "nodeTreeTraversal n s = Inr s1"
  shows "scene s1 = scene s \<and> vaoArray s1 = vaoArray s \<and> faceArray s1 = faceArray s \<and>
         (\<exists>D M. s1 = s\<lparr>gl := (gl s)\<lparr>draws := draws (gl s) @ D\<rparr>, console := console s @ M\<rparr> \<and>
            nodeTreeTraversal n s1 =
              Inr (s1\<lparr>gl := (gl s1)\<lparr>draws := draws (gl s1) @ D\<rparr>,
                      console := console s1 @ M\<rparr>))"
proof -
  from assms(2) obtain as where as: "node_plan (scene s) (vaoArray s) n = Inr as"
    and s1: "s1 = run as s"
    by (auto simp: traversal_plan split: sum.splits)
  let ?D = "rendered (vaos (gl s)) as" and ?M = "messages as"
  have e1: "s1 = s\<lparr>gl := (gl s)\<lparr>draws := draws (gl s) @ ?D\<rparr>, console := console s @ ?M\<rparr>"
    using run_effect [OF assms(1), of as] s1 by simp
  have same: "scene s1 = scene s" "vaoArray s1 = vaoArray s" "faceArray s1 = faceArray s"
    using s1 by (simp_all add: run_fields)
  have b1: "vertex_array_binding (gl s1) = 0" using e1 assms(1) by simp
  have v1: "vaos (gl s1) = vaos (gl s)" using e1 by simp
  have "nodeTreeTraversal n s1 = Inr (run as s1)"
    using as same by (simp add: traversal_plan)
  then have "nodeTreeTraversal n s1 =
      Inr (s1\<lparr>gl := (gl s1)\<lparr>draws := draws (gl s1) @ ?D\<rparr>, console := console s1 @ ?M\<rparr>)"
    using run_effect [OF b1, of as] v1 by simp
  with e1 same show ?thesis by blast
qed

theorem traversal_idempotent_witness:
  "\<exists>s s1 s2. init example_env initial_state = Inr s \<and> vertex_array_binding (gl s) = 0 \<and>
       nodeTreeTraversal (mRootNode example_scene) s = Inr s1 \<and>
       nodeTreeTraversal (mRootNode example_scene) s1 = Inr s2 \<and>
       draws (gl s2) = draws (gl s1) @ draws (gl s1) \<and>
       vaoArray s2 = vaoArray s \<and> scene s2 = scene s"
proof -
  from example_traversal obtain s s1 where s: "init example_env initial_state = Inr s"
    "ready example_scene s" "draws (gl s) = []"
    "nodeTreeTraversal (mRootNode example_scene) s = Inr s1" by blast
  have b: "vertex_array_binding (gl s) = 0" using s(2) by (simp add: ready_def)
  from traversal_idempotent [OF b s(4)] obtain D M
    where same: "scene s1 = scene s" "vaoArray s1 = vaoArray s"
      and e1: "s1 = s\<lparr>gl := (gl s)\<lparr>draws := draws (gl s) @ D\<rparr>, console := console s @ M\<rparr>"
      and e2: "nodeTreeTraversal (mRootNode example_scene) s1 =
              Inr (s1\<lparr>gl := (gl s1)\<lparr>draws := draws (gl s1) @ D\<rparr>,
                      console := console s1 @ M\<rparr>)"
    by blast
  let ?s2 = "s1\<lparr>gl := (gl s1)\<lparr>draws := draws (gl s1) @ D\<rparr>, console := console s1 @ M\<rparr>"
  have d1: "draws (gl s1) = D" using e1 s(3) by simp
  have "draws (gl ?s2) = draws (gl s1) @ draws (gl s1)" using d1 by simp
  moreover have "vaoArray ?s2 = vaoArray s" "scene ?s2 = scene s" using same by simp_all
  ultimately show ?thesis using s(1,4) b e2 by blast
qed

section \<open>A mesh without faces\<close>

lemma faceless_mesh_no_index_buffer:
  assumes "file_good e" and "read_file e = Inr sc" and "init e initial_state = Inr s"
    and "i < mNumMeshes sc" and "\<not> HasFaces (scene_mMeshes sc ! i)"
  shows "index_buffer_of s i = None \<and> (\<exists>v. mesh_vao s i = Some v \<and> element_buffer v = 0)"
proof -
  let ?name = "vao_names (gl initial_state) + Suc i"
  from init_table(4) [OF assms(1-3)] assms(4) obtain va where va: "vaoArray s = Some va"
    "length va = mNumMeshes sc" "va ! i = Some ?name"
    "mesh_ok (gl s) (vPos s) ?name (scene_mMeshes sc ! i)" by blast
  from va(4) obtain v where v: "vaos (gl s) ?name = Some v"
    "ibo_ok (gl s) v (scene_mMeshes sc ! i)"
    by (auto simp: mesh_ok_def split: option.splits)
  have "element_buffer v = 0" using v(2) assms(5) by (simp add: ibo_ok_def)
  then show ?thesis
    using va(1-3) assms(4) v(1) by (simp add: index_buffer_of_def mesh_vao_def)
qed

lemma faceless_mesh_draw:
  assumes "ready sc s" and "i < mNumMeshes sc" and "\<not> HasFaces (scene_mMeshes sc ! i)"
  shows "nodeTreeTraversal (Some (aiNode (i # rest) children)) s = Inl (OutOfBounds MeshFaces 0)"
proof -
  from ready_cells [OF assms(1)] assms(2) obtain va name where va: "vaoArray s = Some va"
    "length va = mNumMeshes sc" "va ! i = Some name" by blast
  have sc: "scene s = Some sc" using assms(1) by (simp add: ready_def)
  have "mesh_plan (Some sc) (Some va) i = Inl (OutOfBounds MeshFaces 0)"
    using va(2,3) assms(2,3)
    by (simp add: mesh_plan_def read_cell_def read_elem_def mNumMeshes_def HasFaces_def)
  then show ?thesis using va(1) sc by (simp add: traversal_plan)
qed

text \<open>
  Claim C5, at the scene with one mesh that has no face. The first half of the claim
  holds: \<open>init\<close> creates no index buffer for the mesh and the element array slot of its
  vertex array stays empty. The second half does not: when the traversal reaches the
  mesh, it reads \<open>mFaces[0].mNumIndices\<close> without asking \<open>HasFaces\<close>, as \<open>init\<close> does before
  it reads the same field; the read is outside the face array and \<open>display\<close> fails there,
  before any draw call.
\<close>

theorem faceless_mesh_crashes_display:
  "\<exists>s. init point_cloud_env initial_state = Inr s \<and>
       index_buffer_of s 0 = None \<and>
       (\<exists>v. mesh_vao s 0 = Some v \<and> element_buffer v = 0) \<and>
       display s = Inl (OutOfBounds MeshFaces 0)"
proof -
  have e: "file_good point_cloud_env" "read_file point_cloud_env = Inr point_cloud_scene"
    by (simp_all add: point_cloud_env_def)
  have fit: "\<forall>m \<in> set (scene_mMeshes point_cloud_scene). faces_fit m"
    by (simp add: point_cloud_scene_def point_cloud_mesh_def faces_fit_def total_indices_def
        spec_flat_indices_def)
  from init_succeeds [OF e fit] obtain s where s: "init point_cloud_env initial_state = Inr s"
    by blast
  have m: "0 < mNumMeshes point_cloud_scene"
    "\<not> HasFaces (scene_mMeshes point_cloud_scene ! 0)"
    "mRootNode point_cloud_scene = Some (aiNode [0] [])"
    by (simp_all add: point_cloud_scene_def point_cloud_mesh_def mNumMeshes_def HasFaces_def)
  have r: "ready point_cloud_scene s" using init_ready [OF e s] .
  let ?s1 = "s\<lparr>gl := glUseProgram (program s) (gl s)\<rparr>"
  have "handle_table_ok point_cloud_scene ?s1 = handle_table_ok point_cloud_scene s"
    by (rule handle_table_ok_cong) (simp_all add: glUseProgram_def)
  then have r1: "ready point_cloud_scene ?s1" using r by (simp add: ready_def glUseProgram_def)
  have "display s = Inl (OutOfBounds MeshFaces 0)"
    using faceless_mesh_draw [OF r1 m(1,2), of "[]" "[]"] r m(3)
    by (simp add: display_def ready_def)
  with faceless_mesh_no_index_buffer [OF e s m(1,2)] s show ?thesis by blast
qed


section \<open>A failed load\<close>

lemma display_no_scene:
  assumes "scene s = None"
  shows "display s = Inr (s\<lparr>gl := glutSwapBuffers (glUseProgram (program s) (gl s))\<rparr>)"
  using assms by (simp add: display_def)

lemma escape_pressed_simps:
  "escape_pressed [] = False"
  "escape_pressed (ev # evs) = (is_escape ev \<or> escape_pressed evs)"
  by (simp_all add: escape_pressed_def)

lemma display_no_scene_props:
  assumes "scene s = None"
  shows "\<exists>s'. display s = Inr s' \<and> scene s' = None \<and> draws (gl s') = draws (gl s) \<and>
           vaoArray s' = vaoArray s"
  using assms by (simp add: display_no_scene glutSwapBuffers_def glUseProgram_def)

lemma dispatch_no_scene:
  assumes "scene s = None" and "\<not> is_escape ev"
  shows "\<exists>s'. dispatch ev s = Inr (Running s') \<and> scene s' = None \<and>
           draws (gl s') = draws (gl s) \<and> vaoArray s' = vaoArray s"
proof (cases ev)
  case DisplayEvent
  from display_no_scene_props [OF assms(1)] DisplayEvent show ?thesis
    by (auto simp: dispatch_def)
next
  case (ReshapeEvent w h)
  with assms(1) show ?thesis by (simp add: dispatch_def reshape_def)
next
  case (KeyboardEvent key x y)
  with assms show ?thesis
    by (simp add: dispatch_def keyboard_def is_escape_def glutPostRedisplay_def)
qed

lemma redisplay_no_scene:
  assumes "scene s = None"
  shows "\<exists>s'. redisplay_if_posted s = Inr s' \<and> scene s' = None \<and>
           draws (gl s') = draws (gl s) \<and> vaoArray s' = vaoArray s"
proof (cases "redisplay s")
  case True
  have "scene (s\<lparr>redisplay := False\<rparr>) = None" using assms by simp
  from display_no_scene_props [OF this] True show ?thesis
    by (auto simp: redisplay_if_posted_def)
next
  case False
  with assms show ?thesis by (simp add: redisplay_if_posted_def)
qed

lemma dispatch_escape:
  assumes "is_escape ev"
  shows "dispatch ev s = Inr (Exited EXIT_SUCCESS)"
  using assms
  by (cases ev) (simp_all add: is_escape_def dispatch_def keyboard_def)

lemma glutMainLoop_no_scene:
  assumes "scene s = None" and "draws (gl s) = []"
  shows "if escape_pressed evs
         then glutMainLoop evs s = Inr (Exited EXIT_SUCCESS)
         else \<exists>s'. glutMainLoop evs s = Inr (Running s') \<and> scene s' = None \<and>
                draws (gl s') = [] \<and> vaoArray s' = vaoArray s"
  using assms
proof (induction evs arbitrary: s)
  case Nil
  then show ?case by (simp add: escape_pressed_simps)
next
  case (Cons ev evs)
  show ?case
  proof (cases "is_escape ev")
    case True
    then show ?thesis by (simp add: escape_pressed_simps dispatch_escape)
  next
    case False
    from dispatch_no_scene [OF Cons.prems(1) False] obtain s2
      where s2: "dispatch ev s = Inr (Running s2)" "scene s2 = None"
        "draws (gl s2) = draws (gl s)" "vaoArray s2 = vaoArray s" by blast
    from redisplay_no_scene [OF s2(2)] obtain s3
      where s3: "redisplay_if_posted s2 = Inr s3" "scene s3 = None"
        "draws (gl s3) = draws (gl s2)" "vaoArray s3 = vaoArray s2" by blast
    have d3: "draws (gl s3) = []" using s3(3) s2(3) Cons.prems(2) by simp
    have step: "glutMainLoop (ev # evs) s = glutMainLoop evs s3"
      using s2(1) s3(1) by simp
    have esc: "escape_pressed (ev # evs) = escape_pressed evs"
      using False by (simp add: escape_pressed_simps)
    have va3: "vaoArray s3 = vaoArray s" using s3(4) s2(4) by simp
    from Cons.IH [OF s3(2) d3] show ?thesis
      unfolding step esc va3 .
  qed
qed

text \<open>
  Claim C6. When the file cannot be opened or the importer reports a failure, \<open>init\<close>
  returns with the scene unset and no handle table, and the last line written to the
  console is the error message (the fixed line for a file that cannot be opened, the
  importer's error string otherwise). The program then runs on: after any run of events
  without the Escape key the main loop is still running, has not failed, the scene is
  still unset and no draw call has been issued in any frame; with the Escape key it exits
  with \<open>EXIT_SUCCESS\<close>.
\<close>

theorem failed_load_draws_nothing:
  assumes "\<not> file_good e \<or> isl (read_file e)"
  shows "\<exists>s. init e initial_state = Inr s \<and> scene s = None \<and> vaoArray s = None \<and>
           console s \<noteq> [] \<and>
           last (console s) =
             (if file_good e then projl (read_file e) else ''Unable to open the 3D file.'') \<and>
           (\<forall>evs. if escape_pressed evs
                   then main e evs = Inr (Exited EXIT_SUCCESS)
                   else \<exists>s'. main e evs = Inr (Running s') \<and> scene s' = None \<and>
                          vaoArray s' = None \<and> draws (gl s') = [])"
proof -
  from init_failed [OF assms, of initial_state] obtain s
    where s: "init e initial_state = Inr s" "gl s = gl initial_state"
      "vaoArray s = vaoArray initial_state"
      "scene s = (if file_good e then None else scene initial_state)"
      "console s = console (build_shaders e initial_state) @
             (if file_good e
              then [''Loading 3D file '' @ objectFileName, projl (read_file e)]
              else [''Unable to open the 3D file.''])"
    by blast
  have sc: "scene s = None" using s(4) by (simp add: initial_state_def)
  have va: "vaoArray s = None" using s(3) by (simp add: initial_state_def)
  have d: "draws (gl s) = []" using s(2) by (simp add: initial_state_def initial_gl_def)
  have c: "console s \<noteq> [] \<and> last (console s) =
             (if file_good e then projl (read_file e) else ''Unable to open the 3D file.'')"
    using s(5) by simp
  have "if escape_pressed evs
        then main e evs = Inr (Exited EXIT_SUCCESS)
        else \<exists>s'. main e evs = Inr (Running s') \<and> scene s' = None \<and>
               vaoArray s' = None \<and> draws (gl s') = []" for evs
    using glutMainLoop_no_scene [OF sc d, of evs] s(1) va by (auto simp: main_def)
  with s(1) sc va c show ?thesis by blast
qed

theorem failed_load_draws_nothing_witness:
  "(\<exists>s'. main missing_file_env [DisplayEvent, KeyboardEvent 65 0 0, ReshapeEvent 4 3]
            = Inr (Running s') \<and> scene s' = None \<and> draws (gl s') = []) \<and>
   (\<exists>s'. main bad_file_env [DisplayEvent, DisplayEvent] = Inr (Running s') \<and>
          scene s' = None \<and> draws (gl s') = []) \<and>
   main bad_file_env [DisplayEvent, KeyboardEvent 27 0 0, DisplayEvent]
     = Inr (Exited EXIT_SUCCESS)"
proof -
  have m: "\<not> file_good missing_file_env \<or> isl (read_file missing_file_env)"
    by (simp add: missing_file_env_def)
  have b: "\<not> file_good bad_file_env \<or> isl (read_file bad_file_env)"
    by (simp add: bad_file_env_def)
  have e: "\<not> escape_pressed [DisplayEvent, KeyboardEvent 65 0 0, ReshapeEvent 4 3]"
    "\<not> escape_pressed [DisplayEvent, DisplayEvent]"
    "escape_pressed [DisplayEvent, KeyboardEvent 27 0 0, DisplayEvent]"
    by (simp_all add: escape_pressed_def is_escape_def)
  from failed_load_draws_nothing [OF m] obtain s1
    where a1: "\<forall>evs. if escape_pressed evs
                   then main missing_file_env evs = Inr (Exited EXIT_SUCCESS)
                   else \<exists>s'. main missing_file_env evs = Inr (Running s') \<and> scene s' = None \<and>
                          vaoArray s' = None \<and> draws (gl s') = []" by blast
  from failed_load_draws_nothing [OF b] obtain s2
    where a2: "\<forall>evs. if escape_pressed evs
                   then main bad_file_env evs = Inr (Exited EXIT_SUCCESS)
                   else \<exists>s'. main bad_file_env evs = Inr (Running s') \<and> scene s' = None \<and>
                          vaoArray s' = None \<and> draws (gl s') = []" by blast
  have 1: "\<exists>s'. main missing_file_env [DisplayEvent, KeyboardEvent 65 0 0, ReshapeEvent 4 3]
            = Inr (Running s') \<and> scene s' = None \<and> draws (gl s') = []"
    using spec [OF a1, of "[DisplayEvent, KeyboardEvent 65 0 0, ReshapeEvent 4 3]"] e(1)
    by auto
  have 2: "\<exists>s'. main bad_file_env [DisplayEvent, DisplayEvent] = Inr (Running s') \<and>
          scene s' = None \<and> draws (gl s') = []"
    using spec [OF a2, of "[DisplayEvent, DisplayEvent]"] e(2) by auto
  have 3: "main bad_file_env [DisplayEvent, KeyboardEvent 27 0 0, DisplayEvent]
     = Inr (Exited EXIT_SUCCESS)"
    using spec [OF a2, of "[DisplayEvent, KeyboardEvent 27 0 0, DisplayEvent]"] e(3) by simp
  from 1 2 3 show ?thesis by simp
qed


section \<open>The keyboard\<close>

text \<open>
  Claim C8. The Escape key (code 27, written \<open>033\<close> in the source) ends the process with
  \<open>EXIT_SUCCESS\<close>. Every other key leaves the callback with the state unchanged but for
  the posted redisplay, and the main loop answers it with one call of \<open>display\<close>.
\<close>

theorem keyboard_escape_or_redraw:
  "keyboard 27 x y s = Exited EXIT_SUCCESS \<and>
   (key \<noteq> 27 \<longrightarrow>
      keyboard key x y s = Running (s\<lparr>redisplay := True\<rparr>) \<and>
      glutMainLoop [KeyboardEvent key x y] s =
        (case display (s\<lparr>redisplay := False\<rparr>) of
           Inl e \<Rightarrow> Inl e
         | Inr s' \<Rightarrow> Inr (Running s')))"
  by (simp add: keyboard_def glutPostRedisplay_def dispatch_def redisplay_if_posted_def
      split: sum.split)

theorem keyboard_escape_or_redraw_witness:
  "keyboard 27 0 0 initial_state = Exited EXIT_SUCCESS \<and>
   keyboard 65 0 0 initial_state = Running (initial_state\<lparr>redisplay := True\<rparr>) \<and>
   scene (initial_state\<lparr>redisplay := True\<rparr>) = scene initial_state \<and>
   vaoArray (initial_state\<lparr>redisplay := True\<rparr>) = vaoArray initial_state \<and>
   program (initial_state\<lparr>redisplay := True\<rparr>) = program initial_state"
  using keyboard_escape_or_redraw [of 0 0 initial_state 65] by simp

end
